(* ===== verification/Prelude.thy ===== *)
theory Prelude
  imports Main
begin

text \<open>
  Shared vocabulary of the development. The CLI is JavaScript: every property
  access, array method and template literal may throw, and an exception that is
  not caught aborts the running command. The model therefore computes in the sum
  type \<open>'e + 'a\<close> (\<open>Inl\<close> the exception) and this theory holds the combinators
  for it: \<open>bindE\<close> (sequencing), \<open>mapE\<close>, and the throwing list traversals
  \<open>filterE\<close>, \<open>findE\<close>, \<open>allE\<close> that model \<open>Array.prototype.filter\<close>,
  \<open>find\<close> and \<open>every\<close> with a callback that may throw. Each traversal visits
  the elements left to right and stops at the first exception, as the JavaScript
  methods do. The lemmas say when a traversal equals its non-throwing HOL
  counterpart (\<open>filter\<close>, \<open>find\<close>, \<open>list_all\<close>), which is how the component
  proofs move from the model to the abstract statements.
  \<open>str_contains\<close> is \<open>String.prototype.includes\<close>.
\<close>

named_theorems eff_simps "unfolding rules of the effect combinators of the model"

section \<open>Exceptions as values\<close>

definition bindE :: "'e + 'a \<Rightarrow> ('a \<Rightarrow> 'e + 'b) \<Rightarrow> 'e + 'b" where
  "bindE m f = (case m of Inl e \<Rightarrow> Inl e | Inr a \<Rightarrow> f a)"

definition mapE :: "('a \<Rightarrow> 'b) \<Rightarrow> 'e + 'a \<Rightarrow> 'e + 'b" where
  "mapE f m = (case m of Inl e \<Rightarrow> Inl e | Inr a \<Rightarrow> Inr (f a))"

fun filterE :: "('a \<Rightarrow> 'e + bool) \<Rightarrow> 'a list \<Rightarrow> 'e + 'a list" where
  "filterE p [] = Inr []"
| "filterE p (x # xs) =
     bindE (p x) (\<lambda>b. mapE (\<lambda>ys. if b then x # ys else ys) (filterE p xs))"

fun findE :: "('a \<Rightarrow> 'e + bool) \<Rightarrow> 'a list \<Rightarrow> 'e + 'a option" where
  "findE p [] = Inr None"
| "findE p (x # xs) = bindE (p x) (\<lambda>b. if b then Inr (Some x) else findE p xs)"

fun allE :: "('a \<Rightarrow> 'e + bool) \<Rightarrow> 'a list \<Rightarrow> 'e + bool" where
  "allE p [] = Inr True"
| "allE p (x # xs) = bindE (p x) (\<lambda>b. if b then allE p xs else Inr False)"

section \<open>Exceptions over a state\<close>

text \<open>
  A computation with effects is a function from a state to its result and the
  new state; the state is kept when an exception is raised, as the requests a
  JavaScript function has sent stay sent when it throws later. \<open>bindS\<close> is
  sequencing (\<open>await\<close>), \<open>catchS\<close> is \<open>try \<dots> catch\<close>, \<open>liftE\<close> embeds a
  pure computation that may throw.
\<close>

type_synonym ('s, 'e, 'a) eff = "'s \<Rightarrow> ('e + 'a) \<times> 's"

definition returnS :: "'a \<Rightarrow> ('s, 'e, 'a) eff" where
  "returnS a s = (Inr a, s)"

definition throwS :: "'e \<Rightarrow> ('s, 'e, 'a) eff" where
  "throwS e s = (Inl e, s)"

definition liftE :: "'e + 'a \<Rightarrow> ('s, 'e, 'a) eff" where
  "liftE r s = (r, s)"

definition bindS :: "('s, 'e, 'a) eff \<Rightarrow> ('a \<Rightarrow> ('s, 'e, 'b) eff) \<Rightarrow> ('s, 'e, 'b) eff" where
  "bindS m f s = (case m s of (Inl e, s') \<Rightarrow> (Inl e, s') | (Inr a, s') \<Rightarrow> f a s')"

definition catchS :: "('s, 'e, 'a) eff \<Rightarrow> ('e \<Rightarrow> ('s, 'e, 'a) eff) \<Rightarrow> ('s, 'e, 'a) eff" where
  "catchS m h s = (case m s of (Inl e, s') \<Rightarrow> h e s' | (Inr a, s') \<Rightarrow> (Inr a, s'))"

section \<open>Substrings\<close>

fun starts_with :: "'a list \<Rightarrow> 'a list \<Rightarrow> bool" where
  "starts_with [] s = True"
| "starts_with (p # ps) [] = False"
| "starts_with (p # ps) (c # cs) = (p = c \<and> starts_with ps cs)"

fun str_contains :: "'a list \<Rightarrow> 'a list \<Rightarrow> bool" where
  "str_contains pat [] = (pat = [])"
| "str_contains pat (c # cs) = (starts_with pat (c # cs) \<or> str_contains pat cs)"

text \<open>\<open>Array.prototype.join\<close> on strings.\<close>

fun join_sep :: "'a list \<Rightarrow> 'a list list \<Rightarrow> 'a list" where
  "join_sep sep [] = []"
| "join_sep sep [x] = x"
| "join_sep sep (x # y # xs) = x @ sep @ join_sep sep (y # xs)"

section \<open>Lemmas on the combinators\<close>

lemma bindE_simps [simp, eff_simps]:
  "bindE (Inl e) f = Inl e"
  "bindE (Inr a) f = f a"
  by (simp_all add: bindE_def)

lemma mapE_simps [simp, eff_simps]:
  "mapE g (Inl e) = Inl e"
  "mapE g (Inr a) = Inr (g a)"
  by (simp_all add: mapE_def)

lemma effect_simps [eff_simps]:
  "returnS a s = (Inr a, s)"
  "throwS e s = (Inl e, s)"
  "liftE r s = (r, s)"
  by (simp_all add: returnS_def throwS_def liftE_def)

lemma bindS_apply [eff_simps]:
  "bindS m f s = (case m s of (Inl e, s') \<Rightarrow> (Inl e, s') | (Inr a, s') \<Rightarrow> f a s')"
  by (simp add: bindS_def)

lemma catchS_apply [eff_simps]:
  "catchS m h s = (case m s of (Inl e, s') \<Rightarrow> h e s' | (Inr a, s') \<Rightarrow> (Inr a, s'))"
  by (simp add: catchS_def)

lemma bindS_Inr [simp]: "m s = (Inr a, s') \<Longrightarrow> bindS m f s = f a s'"
  by (simp add: bindS_def)

lemma bindS_Inl [simp]: "m s = (Inl e, s') \<Longrightarrow> bindS m f s = (Inl e, s')"
  by (simp add: bindS_def)

lemma catchS_Inr [simp]: "m s = (Inr a, s') \<Longrightarrow> catchS m h s = (Inr a, s')"
  by (simp add: catchS_def)

lemma catchS_Inl [simp]: "m s = (Inl e, s') \<Longrightarrow> catchS m h s = h e s'"
  by (simp add: catchS_def)

text \<open>A sequence returns normally exactly when both parts do.\<close>

lemma bindS_eq_Inr:
  "bindS m f s = (Inr x, s') \<longleftrightarrow> (\<exists>a s1. m s = (Inr a, s1) \<and> f a s1 = (Inr x, s'))"
  by (auto simp: bindS_def split: prod.splits sum.splits)

lemma liftE_eq_Inr: "liftE r s = (Inr x, s') \<longleftrightarrow> r = Inr x \<and> s' = s"
  by (auto simp: liftE_def)

lemma bindS_liftE [simp]:
  "bindS (liftE (Inr a)) f = f a" "bindS (liftE (Inl e)) f = throwS e"
  "bindS (returnS a) f = f a"
  by (simp_all add: fun_eq_iff bindS_def liftE_def returnS_def throwS_def)

lemma bindE_eq_Inr_iff [simp]:
  "bindE m f = Inr b \<longleftrightarrow> (\<exists>a. m = Inr a \<and> f a = Inr b)"
  by (cases m) simp_all

lemma mapE_eq_Inr_iff [simp]:
  "mapE g m = Inr b \<longleftrightarrow> (\<exists>a. m = Inr a \<and> b = g a)"
  by (cases m) auto

lemma bindE_cong_Inr:
  "m = Inr a \<Longrightarrow> bindE m f = f a"
  by simp

text \<open>A traversal whose callback never throws on the list is the HOL traversal.\<close>

lemma filterE_Inr:
  "(\<And>x. x \<in> set xs \<Longrightarrow> p x = Inr (P x)) \<Longrightarrow> filterE p xs = Inr (filter P xs)"
  by (induction xs) auto

lemma findE_Inr:
  "(\<And>x. x \<in> set xs \<Longrightarrow> p x = Inr (P x)) \<Longrightarrow> findE p xs = Inr (find P xs)"
  by (induction xs) auto

lemma allE_Inr:
  "(\<And>x. x \<in> set xs \<Longrightarrow> p x = Inr (P x)) \<Longrightarrow> allE p xs = Inr (list_all P xs)"
  by (induction xs) auto

text \<open>What a successful filter keeps: elements of the input, each accepted.\<close>

lemma filterE_Inr_subset:
  "filterE p xs = Inr ys \<Longrightarrow> y \<in> set ys \<Longrightarrow> y \<in> set xs \<and> p y = Inr True"
proof (induction xs arbitrary: ys)
  case Nil
  then show ?case by simp
next
  case (Cons x xs)
  then show ?case by (auto split: if_splits)
qed

lemma filterE_Inr_filter: "filterE p xs = Inr ys \<Longrightarrow> ys = filter (\<lambda>x. p x = Inr True) xs"
proof (induction xs arbitrary: ys)
  case Nil
  then show ?case by simp
next
  case (Cons x xs)
  then show ?case by (auto split: if_splits)
qed

lemma length_filter_disjoint:
  "(\<And>x. x \<in> set xs \<Longrightarrow> \<not> (P x \<and> Q x)) \<Longrightarrow> length (filter P xs) + length (filter Q xs) \<le> length xs"
  by (induction xs) auto

lemma filterE_Inr_complete:
  "filterE p xs = Inr ys \<Longrightarrow> y \<in> set xs \<Longrightarrow> p y = Inr True \<Longrightarrow> y \<in> set ys"
proof (induction xs arbitrary: ys)
  case Nil
  then show ?case by simp
next
  case (Cons x xs)
  then show ?case by (auto split: if_splits)
qed

lemma list_all_ex_image:
  "list_all (\<lambda>x. \<exists>y\<in>set ys. f y = f x) xs \<longleftrightarrow> f ` set xs \<subseteq> f ` set ys"
  by (simp add: list_all_iff image_subset_iff image_iff eq_commute)

lemma find_Some_in_set: "find P xs = Some x \<Longrightarrow> x \<in> set xs \<and> P x"
  by (induction xs) (auto split: if_splits)

lemma starts_with_iff: "starts_with p s \<longleftrightarrow> (\<exists>t. s = p @ t)"
  by (induction p s rule: starts_with.induct) auto

lemma str_contains_iff: "str_contains p s \<longleftrightarrow> (\<exists>a b. s = a @ p @ b)"
proof (induction s)
  case Nil
  then show ?case by simp
next
  case (Cons c cs)
  show ?case
  proof
    assume "str_contains p (c # cs)"
    then consider (here) "starts_with p (c # cs)" | (later) "str_contains p cs" by auto
    then show "\<exists>a b. c # cs = a @ p @ b"
    proof cases
      case here
      then show ?thesis by (metis append_Nil starts_with_iff)
    next
      case later
      with Cons.IH obtain a b where "cs = a @ p @ b" by blast
      then have "c # cs = (c # a) @ p @ b" by simp
      then show ?thesis by blast
    qed
  next
    assume "\<exists>a b. c # cs = a @ p @ b"
    then obtain a b where ab: "c # cs = a @ p @ b" by blast
    show "str_contains p (c # cs)"
    proof (cases a)
      case Nil
      with ab have "c # cs = p @ b" by simp
      then have "starts_with p (c # cs)" by (auto simp: starts_with_iff)
      then show ?thesis by simp
    next
      case (Cons a' as)
      with ab Cons.IH show ?thesis by auto
    qed
  qed
qed


lemma map_of_filter_key: "map_of (filter (\<lambda>f. fst f \<noteq> k) xs) k = None"
  by (induction xs) auto

end
