(* ===== verification/Js_Value.thy ===== *)
theory Js_Value
  imports Prelude
begin

text \<open>
  The JavaScript values the CLI (\<open>src/src/cli.ts\<close>) handles, and the parts of
  the language it relies on. Every value the program touches comes from
  \<open>JSON.parse\<close> (local files) or from an HTTP response body, so a value is
  JSON plus \<open>undefined\<close>, which a missing property reads as. Numbers are kept
  as \<open>int\<close>; the schemas carry no fractional numbers. An object is the list of
  its own properties in insertion order.

  JavaScript semantics modelled here, with the program's use:
  \<^item> \<open>js_seq\<close> is \<open>===\<close>. The program only ever compares a value of the local
    file with a value of an HTTP response, so two arrays or objects are always
    distinct allocations and compare unequal; primitives compare by value.
  \<^item> \<open>js_truthy\<close> is the coercion of \<open>if\<close>, \<open>!\<close> and \<open>||\<close>.
  \<^item> \<open>js_get\<close> is property access \<open>v.k\<close> / \<open>v[k]\<close>: \<open>TypeError\<close> on
    \<open>undefined\<close> and \<open>null\<close>, the own property of an object, \<open>undefined\<close>
    otherwise (the built-in members of strings and arrays are not among the
    keys the program reads).
  \<^item> \<open>js_keys\<close> is \<open>Object.keys\<close>: array-index keys first in ascending order,
    then the other keys in insertion order.
  \<^item> \<open>js_filter\<close>, \<open>js_find\<close>, \<open>js_every\<close> are the array methods (a
    \<open>TypeError\<close> on a receiver that is no array); \<open>js_includes\<close> is
    \<open>includes\<close> of strings and arrays.
  \<^item> \<open>js_to_string\<close> is the conversion of a template literal \<open>`${v}`\<close>.
  The last section holds \<open>pick\<close> (cli.ts lines 68--72), the program's own
  helper for a destructive read of one property.
\<close>

datatype error =
    TypeError
  | SyntaxError
  | FsError
  | NetworkError
  | HttpStatus int

datatype jval =
    JUndef
  | JNull
  | JBool bool
  | JNum int
  | JStr string
  | JArr "jval list"
  | JObj "(string \<times> jval) list"

named_theorems js_simps "evaluation rules of the JavaScript value model"

section \<open>Equality, truthiness, property access\<close>

fun js_seq :: "jval \<Rightarrow> jval \<Rightarrow> bool" where
  "js_seq JUndef JUndef = True"
| "js_seq JNull JNull = True"
| "js_seq (JBool a) (JBool b) = (a = b)"
| "js_seq (JNum a) (JNum b) = (a = b)"
| "js_seq (JStr a) (JStr b) = (a = b)"
| "js_seq _ _ = False"

fun js_truthy :: "jval \<Rightarrow> bool" where
  "js_truthy JUndef = False"
| "js_truthy JNull = False"
| "js_truthy (JBool b) = b"
| "js_truthy (JNum n) = (n \<noteq> 0)"
| "js_truthy (JStr s) = (s \<noteq> [])"
| "js_truthy (JArr xs) = True"
| "js_truthy (JObj fs) = True"

fun is_array :: "jval \<Rightarrow> bool" where
  "is_array (JArr xs) = True"
| "is_array _ = False"

definition obj_lookup :: "(string \<times> jval) list \<Rightarrow> string \<Rightarrow> jval" where
  "obj_lookup fs k = (case map_of fs k of None \<Rightarrow> JUndef | Some v \<Rightarrow> v)"

fun js_get :: "jval \<Rightarrow> string \<Rightarrow> error + jval" where
  "js_get JUndef k = Inl TypeError"
| "js_get JNull k = Inl TypeError"
| "js_get (JObj fs) k = Inr (obj_lookup fs k)"
| "js_get (JBool b) k = Inr JUndef"
| "js_get (JNum n) k = Inr JUndef"
| "js_get (JStr s) k = Inr JUndef"
| "js_get (JArr xs) k = Inr JUndef"

text \<open>\<open>delete v[k]\<close> on a value whose property was just read.\<close>

fun js_delete :: "jval \<Rightarrow> string \<Rightarrow> jval" where
  "js_delete (JObj fs) k = JObj (filter (\<lambda>f. fst f \<noteq> k) fs)"
| "js_delete v k = v"

section \<open>Object.keys\<close>

definition digit_val :: "char \<Rightarrow> nat" where
  "digit_val c = of_char c - 48"

definition is_dec_digit :: "char \<Rightarrow> bool" where
  "is_dec_digit c \<longleftrightarrow> 48 \<le> (of_char c :: nat) \<and> (of_char c :: nat) \<le> 57"

definition digits_val :: "string \<Rightarrow> nat" where
  "digits_val s = foldl (\<lambda>n c. 10 * n + digit_val c) 0 s"

definition is_array_index :: "string \<Rightarrow> bool" where
  "is_array_index s \<longleftrightarrow>
     s \<noteq> [] \<and> list_all is_dec_digit s \<and> (s = ''0'' \<or> hd s \<noteq> CHR ''0'')
     \<and> digits_val s < 2 ^ 32 - 1"

definition keys_order :: "string list \<Rightarrow> string list" where
  "keys_order ks =
     sort_key digits_val (filter is_array_index ks) @ filter (\<lambda>k. \<not> is_array_index k) ks"

fun js_keys :: "jval \<Rightarrow> error + string list" where
  "js_keys JUndef = Inl TypeError"
| "js_keys JNull = Inl TypeError"
| "js_keys (JObj fs) = Inr (keys_order (map fst fs))"
| "js_keys v = Inr []"

section \<open>Array and string methods\<close>

definition js_filter :: "(jval \<Rightarrow> error + bool) \<Rightarrow> jval \<Rightarrow> error + jval list" where
  "js_filter p v = (case v of JArr xs \<Rightarrow> filterE p xs | _ \<Rightarrow> Inl TypeError)"

definition js_find :: "(jval \<Rightarrow> error + bool) \<Rightarrow> jval \<Rightarrow> error + jval" where
  "js_find p v =
     (case v of
        JArr xs \<Rightarrow> mapE (\<lambda>r. case r of None \<Rightarrow> JUndef | Some x \<Rightarrow> x) (findE p xs)
      | _ \<Rightarrow> Inl TypeError)"

definition js_every :: "(jval \<Rightarrow> error + bool) \<Rightarrow> jval \<Rightarrow> error + bool" where
  "js_every p v = (case v of JArr xs \<Rightarrow> allE p xs | _ \<Rightarrow> Inl TypeError)"

fun js_includes :: "jval \<Rightarrow> string \<Rightarrow> error + bool" where
  "js_includes (JStr s) pat = Inr (str_contains pat s)"
| "js_includes (JArr xs) pat = Inr (JStr pat \<in> set xs)"
| "js_includes v pat = Inl TypeError"

section \<open>Template literals\<close>

fun nat_str :: "nat \<Rightarrow> string" where
  "nat_str n =
     (if n < 10 then [char_of (48 + n)] else nat_str (n div 10) @ [char_of (48 + n mod 10)])"

definition int_str :: "int \<Rightarrow> string" where
  "int_str i = (if i < 0 then CHR ''-'' # nat_str (nat (- i)) else nat_str (nat i))"

fun js_to_string :: "jval \<Rightarrow> string" where
  "js_to_string JUndef = ''undefined''"
| "js_to_string JNull = ''null''"
| "js_to_string (JBool b) = (if b then ''true'' else ''false'')"
| "js_to_string (JNum n) = int_str n"
| "js_to_string (JStr s) = s"
| "js_to_string (JArr xs) =
     join_sep '','' (map (\<lambda>x. if x = JUndef \<or> x = JNull then [] else js_to_string x) xs)"
| "js_to_string (JObj fs) = ''[object Object]''"

section \<open>The program's helper pick\<close>

text \<open>
  \<^verbatim>\<open>const pick = (obj, key, def?) => { const result = obj[key]; delete obj[key];
  return result || def; };\<close>
  The object is mutated, so the model returns the value and the object after the
  deletion. An omitted \<open>def\<close> is \<open>undefined\<close>.
\<close>

definition pick :: "jval \<Rightarrow> string \<Rightarrow> jval \<Rightarrow> error + jval \<times> jval" where
  "pick obj key def =
     bindE (js_get obj key)
       (\<lambda>result. Inr (if js_truthy result then result else def, js_delete obj key))"

text \<open>Primitive values: those \<open>===\<close> compares by value.\<close>

fun js_prim :: "jval \<Rightarrow> bool" where
  "js_prim (JArr xs) = False"
| "js_prim (JObj fs) = False"
| "js_prim v = True"

section \<open>Lemmas\<close>

lemma js_seq_sym: "js_seq a b = js_seq b a"
  by (cases a; cases b) auto

text \<open>On primitives \<open>===\<close> is equality; on arrays and objects it never holds.\<close>

lemma js_seq_prim: "js_prim a \<Longrightarrow> js_seq a b \<longleftrightarrow> a = b"
  by (cases a; cases b) auto

lemma js_seq_compound [simp]: "\<not> js_seq (JArr xs) b" "\<not> js_seq (JObj fs) b"
  "\<not> js_seq b (JArr xs)" "\<not> js_seq b (JObj fs)"
  by (cases b; simp)+

lemma js_get_truthy: "js_truthy v \<Longrightarrow> \<exists>r. js_get v k = Inr r"
  by (cases v) auto

lemma js_filter_JArr [simp, js_simps]: "js_filter p (JArr xs) = filterE p xs"
  by (simp add: js_filter_def)

lemma js_find_JArr [simp, js_simps]:
  "js_find p (JArr xs) = mapE (\<lambda>r. case r of None \<Rightarrow> JUndef | Some x \<Rightarrow> x) (findE p xs)"
  by (simp add: js_find_def)

lemma js_every_JArr [simp, js_simps]: "js_every p (JArr xs) = allE p xs"
  by (simp add: js_every_def)

lemma js_methods_non_array [simp, js_simps]:
  "\<not> is_array v \<Longrightarrow> js_filter p v = Inl TypeError"
  "\<not> is_array v \<Longrightarrow> js_find p v = Inl TypeError"
  "\<not> is_array v \<Longrightarrow> js_every p v = Inl TypeError"
  by (cases v; simp add: js_filter_def js_find_def js_every_def)+

lemma js_find_Inr:
  "(\<And>y. y \<in> set ys \<Longrightarrow> p y = Inr (P y)) \<Longrightarrow>
   js_find p (JArr ys) = Inr (case find P ys of None \<Rightarrow> JUndef | Some y \<Rightarrow> y)"
  by (simp add: findE_Inr)

text \<open>\<open>find\<close> over truthy elements is truthy exactly when some element matches.\<close>

lemma truthy_find:
  "(\<And>y. y \<in> set ys \<Longrightarrow> js_truthy y) \<Longrightarrow>
   js_truthy (case find P ys of None \<Rightarrow> JUndef | Some y \<Rightarrow> y) \<longleftrightarrow> (\<exists>y\<in>set ys. P y)"
  by (induction ys) auto

lemma set_keys_order [simp]: "set (keys_order ks) = set ks"
  by (auto simp: keys_order_def)


text \<open>\<open>pick\<close> succeeds only on an object-like value, and leaves it without the key.\<close>

lemma pick_Inr:
  "pick obj k def = Inr (v, obj') \<Longrightarrow> obj' = js_delete obj k \<and> obj \<noteq> JUndef \<and> obj \<noteq> JNull"
  by (cases obj) (auto simp: pick_def)

lemma js_get_deleted:
  "obj \<noteq> JUndef \<Longrightarrow> obj \<noteq> JNull \<Longrightarrow> js_get (js_delete obj k) k = Inr JUndef"
  by (cases obj) (auto simp: obj_lookup_def map_of_filter_key)

end
