(* ===== verification/Reconcile.thy ===== *)
theory Reconcile
  imports Js_Value
begin

text \<open>
  The reconciliation engine of cli.ts: \<open>shouldContainAll\<close> and
  \<open>validateOptions\<close> (lines 133--146) and the diff that \<open>updateSchema\<close>
  computes before it issues any request (lines 148--176). Each callback of the
  source is one definition, in the source's evaluation order, so that the
  exceptions the source can raise (a \<open>TypeError\<close> on \<open>null\<close>, a missing array)
  are the \<open>Inl\<close> branches of the model:
  \<^item> \<open>option_match\<close>: the \<open>find\<close> callback of \<open>shouldContainAll\<close>;
  \<^item> \<open>should_contain_all\<close>, \<open>validate_options\<close>;
  \<^item> \<open>delete_filter\<close>, \<open>create_filter\<close>, \<open>update_filter\<close>: the callbacks of
    the three \<open>filter\<close> calls, with \<open>field_changed\<close> and
    \<open>property_changed\<close> the \<open>reduce\<close> over \<open>Object.keys\<close>;
  \<^item> \<open>schema_diff\<close>: the three filters in order, giving the record \<open>diff\<close>;
  \<^item> \<open>update_plan\<close>: the two destructive \<open>pick\<close>s of \<open>"properties"\<close> and the
    diff.
  The second half states what the engine promises on well-formed input
  (properties are objects with a string name, option lists are arrays of
  objects with primitive label and value) as an abstract specification
  (\<open>spec_diff\<close>, option lists compared as sets of label/value pairs) and proves
  that the code refines it.
\<close>

section \<open>Option lists\<close>

definition option_match :: "jval \<Rightarrow> jval \<Rightarrow> error + bool" where
  "option_match aOption bOption =
     bindE (js_get bOption ''label'') (\<lambda>bl. bindE (js_get aOption ''label'') (\<lambda>al.
       if js_seq bl al then
         bindE (js_get bOption ''value'') (\<lambda>bv. bindE (js_get aOption ''value'') (\<lambda>av.
           Inr (js_seq bv av)))
       else Inr False))"

definition should_contain_all :: "jval \<Rightarrow> jval \<Rightarrow> error + bool" where
  "should_contain_all a b =
     js_every (\<lambda>aOption. mapE js_truthy (js_find (option_match aOption) b)) a"

definition validate_options :: "jval \<Rightarrow> jval \<Rightarrow> error + bool" where
  "validate_options existingOptions currentOptions =
     bindE (should_contain_all existingOptions currentOptions)
       (\<lambda>r. if r then should_contain_all currentOptions existingOptions else Inr False)"

section \<open>The three filters of updateSchema\<close>

text \<open>\<open>(prop) => prop.name === name\<close>\<close>

definition has_name :: "jval \<Rightarrow> jval \<Rightarrow> error + bool" where
  "has_name name prop = mapE (\<lambda>n. js_seq n name) (js_get prop ''name'')"

text \<open>\<open>name.includes("hs_") || name.includes("hubspot_")\<close>\<close>

definition is_reserved :: "jval \<Rightarrow> error + bool" where
  "is_reserved name =
     bindE (js_includes name ''hs_'') (\<lambda>r. if r then Inr True else js_includes name ''hubspot_'')"

definition delete_filter :: "jval \<Rightarrow> jval \<Rightarrow> error + bool" where
  "delete_filter updatedProperties p =
     bindE (js_get p ''name'') (\<lambda>name.
       bindE (is_reserved name) (\<lambda>r.
         if r then Inr False
         else mapE (\<lambda>f. \<not> js_truthy f) (js_find (has_name name) updatedProperties)))"

definition create_filter :: "jval \<Rightarrow> jval \<Rightarrow> error + bool" where
  "create_filter currentProperties p =
     bindE (js_get p ''name'') (\<lambda>name.
       mapE (\<lambda>f. \<not> js_truthy f) (js_find (has_name name) currentProperties))"

text \<open>One step of the \<open>reduce\<close>: \<open>Array.isArray(u[key])\<close> selects the comparison.\<close>

definition field_changed :: "jval \<Rightarrow> jval \<Rightarrow> string \<Rightarrow> error + bool" where
  "field_changed updatedProperty existingProperty key =
     bindE (js_get updatedProperty key) (\<lambda>u.
       bindE (js_get existingProperty key) (\<lambda>e.
         if is_array u then mapE Not (validate_options u e) else Inr (\<not> js_seq u e)))"

definition reduce_step :: "(string \<Rightarrow> error + bool) \<Rightarrow> error + bool \<Rightarrow> string \<Rightarrow> error + bool" where
  "reduce_step f acc key = bindE acc (\<lambda>a. if a then Inr a else f key)"

definition property_changed :: "jval \<Rightarrow> jval \<Rightarrow> error + bool" where
  "property_changed updatedProperty existingProperty =
     bindE (js_keys updatedProperty) (\<lambda>ks.
       foldl (reduce_step (field_changed updatedProperty existingProperty)) (Inr False) ks)"

definition update_filter :: "jval \<Rightarrow> jval \<Rightarrow> error + bool" where
  "update_filter currentProperties updatedProperty =
     bindE (js_find (\<lambda>prop. bindE (js_get prop ''name'') (\<lambda>a.
                        bindE (js_get updatedProperty ''name'') (\<lambda>b. Inr (js_seq a b))))
              currentProperties)
       (\<lambda>existingProperty.
          if \<not> js_truthy existingProperty then Inr False
          else property_changed updatedProperty existingProperty)"

record diff =
  to_delete :: "jval list"
  to_create :: "jval list"
  to_update :: "jval list"

definition schema_diff :: "jval \<Rightarrow> jval \<Rightarrow> error + diff" where
  "schema_diff updatedProperties currentProperties =
     bindE (js_filter (delete_filter updatedProperties) currentProperties) (\<lambda>toDelete.
     bindE (js_filter (create_filter currentProperties) updatedProperties) (\<lambda>toCreate.
     bindE (js_filter (update_filter currentProperties) updatedProperties) (\<lambda>toUpdate.
       Inr \<lparr>to_delete = toDelete, to_create = toCreate, to_update = toUpdate\<rparr>)))"

text \<open>
  The head of \<open>updateSchema\<close>: both schemas lose their \<open>properties\<close> field
  (the current schema is the index entry, so the loss is visible to the caller),
  then the diff. The result carries the current schema after the deletion.
\<close>

definition update_plan :: "jval \<Rightarrow> jval \<Rightarrow> error + diff \<times> jval" where
  "update_plan updatedSchema currentSchema =
     bindE (pick updatedSchema ''properties'' JUndef) (\<lambda>(updatedProperties, _).
     bindE (pick currentSchema ''properties'' JUndef) (\<lambda>(currentProperties, currentSchema').
       mapE (\<lambda>d. (d, currentSchema')) (schema_diff updatedProperties currentProperties)))"

section \<open>The abstract specification\<close>

text \<open>
  Well-formed input: a property is an object whose \<open>name\<close> is a string and
  whose array-valued fields are option lists, arrays of objects with a primitive
  \<open>label\<close> and \<open>value\<close>. Nested objects are allowed (they always compare
  as changed, see \<open>js_seq\<close>).
\<close>

definition prop_field :: "jval \<Rightarrow> string \<Rightarrow> jval" where
  "prop_field v k = (case v of JObj fs \<Rightarrow> obj_lookup fs k | _ \<Rightarrow> JUndef)"

abbreviation prop_name :: "jval \<Rightarrow> jval" where
  "prop_name v \<equiv> prop_field v ''name''"

fun prop_keys :: "jval \<Rightarrow> string list" where
  "prop_keys (JObj fs) = map fst fs"
| "prop_keys v = []"

definition opt_pair :: "jval \<Rightarrow> jval \<times> jval" where
  "opt_pair v = (prop_field v ''label'', prop_field v ''value'')"

fun wf_option :: "jval \<Rightarrow> bool" where
  "wf_option (JObj fs) = (js_prim (obj_lookup fs ''label'') \<and> js_prim (obj_lookup fs ''value''))"
| "wf_option v = False"

fun wf_field :: "jval \<Rightarrow> bool" where
  "wf_field (JArr xs) = list_all wf_option xs"
| "wf_field v = True"

fun is_jstr :: "jval \<Rightarrow> bool" where
  "is_jstr (JStr s) = True"
| "is_jstr v = False"

fun wf_property :: "jval \<Rightarrow> bool" where
  "wf_property (JObj fs) = (is_jstr (obj_lookup fs ''name'') \<and> list_all (\<lambda>f. wf_field (snd f)) fs)"
| "wf_property v = False"

fun reserved_name :: "jval \<Rightarrow> bool" where
  "reserved_name (JStr s) = (str_contains ''hs_'' s \<or> str_contains ''hubspot_'' s)"
| "reserved_name v = False"

definition same_options :: "jval list \<Rightarrow> jval list \<Rightarrow> bool" where
  "same_options xs ys \<longleftrightarrow> set (map opt_pair xs) = set (map opt_pair ys)"

fun field_differs :: "jval \<Rightarrow> jval \<Rightarrow> bool" where
  "field_differs (JArr us) (JArr es) = (\<not> same_options us es)"
| "field_differs u e = (\<not> js_seq u e)"

definition find_by_name :: "jval list \<Rightarrow> jval \<Rightarrow> jval option" where
  "find_by_name C n = find (\<lambda>c. prop_name c = n) C"

definition prop_differs :: "jval \<Rightarrow> jval \<Rightarrow> bool" where
  "prop_differs u e \<longleftrightarrow> (\<exists>k\<in>set (prop_keys u). field_differs (prop_field u k) (prop_field e k))"

text \<open>
  The engine's contract (spec section 4.3): delete what the remote has and the
  file lacks, except reserved names; create what the file has and the remote
  lacks; update what both have and some field of the file's property differs
  from the remote's, option lists compared as sets of label/value pairs.
  \<open>reserved_name\<close> is the test the code performs (\<open>includes\<close>, not a prefix
  test).
\<close>

definition spec_diff :: "jval list \<Rightarrow> jval list \<Rightarrow> diff" where
  "spec_diff U C = \<lparr>
     to_delete = filter (\<lambda>c. \<not> reserved_name (prop_name c) \<and> prop_name c \<notin> prop_name ` set U) C,
     to_create = filter (\<lambda>u. prop_name u \<notin> prop_name ` set C) U,
     to_update = filter (\<lambda>u. case find_by_name C (prop_name u) of
                                None \<Rightarrow> False
                              | Some e \<Rightarrow> prop_differs u e) U \<rparr>"

text \<open>
  Where a file's property has an array field, the remote's property of that name
  has an array there too; otherwise \<open>shouldContainAll\<close> calls \<open>find\<close> or
  \<open>every\<close> on a non-array and throws (\<open>validate_options_non_array_error\<close>).
\<close>

definition arrays_agree :: "jval list \<Rightarrow> jval list \<Rightarrow> bool" where
  "arrays_agree U C \<longleftrightarrow>
     (\<forall>u\<in>set U. case find_by_name C (prop_name u) of
        None \<Rightarrow> True
      | Some e \<Rightarrow> (\<forall>k\<in>set (prop_keys u). is_array (prop_field u k) \<longrightarrow> is_array (prop_field e k)))"

text \<open>
  Reference for the \<open>reduce\<close> of \<open>property_changed\<close>: short-circuit
  evaluation, which stops at the first differing field and evaluates no field
  after it.
\<close>

fun first_change :: "(string \<Rightarrow> error + bool) \<Rightarrow> string list \<Rightarrow> error + bool" where
  "first_change f [] = Inr False"
| "first_change f (k # ks) = bindE (f k) (\<lambda>b. if b then Inr True else first_change f ks)"

section \<open>Example schemas\<close>

text \<open>
  The scenarios of spec section 8 in one pair of property lists: the file
  reorders the options of \<open>status\<close> (scenario 2), relabels \<open>amount\<close>, adds
  \<open>foo\<close> and drops \<open>legacy_field\<close> (scenario 3), \<open>months_active\<close> and the
  platform-managed \<open>hs_lastmodifieddate\<close>.
\<close>

abbreviation ex_opt :: "string \<Rightarrow> string \<Rightarrow> jval" where
  "ex_opt l v \<equiv> JObj [(''label'', JStr l), (''value'', JStr v)]"

abbreviation ex_prop :: "string \<Rightarrow> string \<Rightarrow> jval" where
  "ex_prop n l \<equiv> JObj [(''name'', JStr n), (''label'', JStr l), (''type'', JStr ''string'')]"

abbreviation ex_status :: "jval list \<Rightarrow> jval" where
  "ex_status os \<equiv>
     JObj [(''name'', JStr ''status''), (''type'', JStr ''enumeration''), (''options'', JArr os)]"

abbreviation ex_local :: "jval list" where
  "ex_local \<equiv>
     [ex_status [ex_opt ''A'' ''a'', ex_opt ''B'' ''b''], ex_prop ''amount'' ''Amount'',
      ex_prop ''foo'' ''Foo'']"

abbreviation ex_remote :: "jval list" where
  "ex_remote \<equiv>
     [ex_status [ex_opt ''B'' ''b'', ex_opt ''A'' ''a''], ex_prop ''amount'' ''Amt'',
      ex_prop ''legacy_field'' ''Legacy'', ex_prop ''months_active'' ''Months'',
      ex_prop ''hs_lastmodifieddate'' ''Modified'']"

abbreviation ex_diff :: diff where
  "ex_diff \<equiv>
     \<lparr>to_delete = [ex_prop ''legacy_field'' ''Legacy''], to_create = [ex_prop ''foo'' ''Foo''],
      to_update = [ex_prop ''amount'' ''Amount'']\<rparr>"

section \<open>Lemmas: the callbacks on well-formed input\<close>

lemma wf_option_truthy: "wf_option v \<Longrightarrow> js_truthy v"
  by (cases v) auto

lemma wf_property_truthy: "wf_property v \<Longrightarrow> js_truthy v"
  by (cases v) auto

lemma js_get_prop_field: "wf_property v \<Longrightarrow> js_get v k = Inr (prop_field v k)"
  "wf_option v \<Longrightarrow> js_get v k = Inr (prop_field v k)"
  by (cases v; simp add: prop_field_def)+

lemma obj_lookup_in_set: "obj_lookup fs k = JUndef \<or> obj_lookup fs k \<in> snd ` set fs"
  by (induction fs) (auto simp: obj_lookup_def split: option.splits)

lemma wf_property_field: "wf_property v \<Longrightarrow> wf_field (prop_field v k)"
proof (cases v)
  case (JObj fs)
  moreover assume "wf_property v"
  ultimately show ?thesis
    using obj_lookup_in_set [of fs k] by (auto simp: prop_field_def list_all_iff)
qed auto

lemma wf_property_name: "wf_property v \<Longrightarrow> is_jstr (prop_name v)"
  by (cases v) (auto simp: prop_field_def)

lemma is_jstr_seq: "is_jstr a \<Longrightarrow> js_seq a b \<longleftrightarrow> a = b"
  by (cases a) (auto simp: js_seq_prim)

lemma option_match_wf:
  "wf_option a \<Longrightarrow> wf_option b \<Longrightarrow> option_match a b = Inr (opt_pair b = opt_pair a)"
  by (cases a; cases b) (auto simp: option_match_def opt_pair_def prop_field_def js_seq_prim)

lemma should_contain_all_wf:
  assumes "list_all wf_option xs" "list_all wf_option ys"
  shows "should_contain_all (JArr xs) (JArr ys) = Inr (set (map opt_pair xs) \<subseteq> set (map opt_pair ys))"
proof -
  have step: "mapE js_truthy (js_find (option_match x) (JArr ys)) = Inr (\<exists>y\<in>set ys. opt_pair y = opt_pair x)"
    if "x \<in> set xs" for x
  proof -
    have "findE (option_match x) ys = Inr (find (\<lambda>y. opt_pair y = opt_pair x) ys)"
      using assms that by (intro findE_Inr) (simp add: list_all_iff option_match_wf)
    then show ?thesis
      using assms by (simp add: list_all_iff truthy_find wf_option_truthy)
  qed
  have "allE (\<lambda>aOption. mapE js_truthy (js_find (option_match aOption) (JArr ys))) xs
      = Inr (list_all (\<lambda>x. \<exists>y\<in>set ys. opt_pair y = opt_pair x) xs)"
    by (rule allE_Inr) (rule step)
  moreover have "list_all (\<lambda>x. \<exists>y\<in>set ys. opt_pair y = opt_pair x) xs
      \<longleftrightarrow> set (map opt_pair xs) \<subseteq> set (map opt_pair ys)"
    by (simp add: list_all_ex_image)
  ultimately show ?thesis
    by (simp only: should_contain_all_def js_every_JArr)
qed

lemma validate_options_wf:
  "list_all wf_option xs \<Longrightarrow> list_all wf_option ys \<Longrightarrow>
   validate_options (JArr xs) (JArr ys) = Inr (same_options xs ys)"
  by (auto simp: validate_options_def should_contain_all_wf same_options_def)

lemma field_changed_wf:
  assumes "wf_property u" "wf_property e"
    and "is_array (prop_field u k) \<Longrightarrow> is_array (prop_field e k)"
  shows "field_changed u e k = Inr (field_differs (prop_field u k) (prop_field e k))"
proof (cases "is_array (prop_field u k)")
  case True
  then obtain us es where "prop_field u k = JArr us" "prop_field e k = JArr es"
    using assms(3) by (cases "prop_field u k"; cases "prop_field e k") auto
  moreover have "wf_field (prop_field u k)" "wf_field (prop_field e k)"
    using assms(1,2) by (simp_all add: wf_property_field)
  ultimately show ?thesis
    using assms(1,2) by (simp add: field_changed_def js_get_prop_field validate_options_wf)
next
  case False
  then show ?thesis
    using assms(1,2) by (cases "prop_field u k") (simp_all add: field_changed_def js_get_prop_field)
qed

lemma foldl_reduce_step_Inr:
  "(\<And>k. k \<in> set ks \<Longrightarrow> f k = Inr (P k)) \<Longrightarrow>
   foldl (reduce_step f) (Inr b) ks = Inr (b \<or> (\<exists>k\<in>set ks. P k))"
proof (induction ks arbitrary: b)
  case Nil
  then show ?case by simp
next
  case (Cons k ks)
  then show ?case by (auto simp: reduce_step_def)
qed

lemma property_changed_wf:
  assumes "wf_property u" "wf_property e"
    and "\<And>k. k \<in> set (prop_keys u) \<Longrightarrow> is_array (prop_field u k) \<Longrightarrow> is_array (prop_field e k)"
  shows "property_changed u e = Inr (prop_differs u e)"
proof -
  obtain fs where u: "u = JObj fs" using assms(1) by (cases u) auto
  have "\<And>k. k \<in> set (keys_order (map fst fs)) \<Longrightarrow>
      field_changed u e k = Inr (field_differs (prop_field u k) (prop_field e k))"
    using assms u by (intro field_changed_wf) auto
  then have "foldl (reduce_step (field_changed u e)) (Inr False) (keys_order (map fst fs))
      = Inr (False \<or> (\<exists>k\<in>set (keys_order (map fst fs)). field_differs (prop_field u k) (prop_field e k)))"
    by (rule foldl_reduce_step_Inr)
  then show ?thesis
    using u by (simp add: property_changed_def prop_differs_def)
qed

lemma has_name_wf: "wf_property p \<Longrightarrow> is_jstr n \<Longrightarrow> has_name n p = Inr (prop_name p = n)"
  by (simp add: has_name_def js_get_prop_field is_jstr_seq wf_property_name)

lemma find_has_name_wf:
  assumes "list_all wf_property P" "is_jstr n"
  shows "mapE (\<lambda>f. \<not> js_truthy f) (js_find (has_name n) (JArr P)) = Inr (n \<notin> prop_name ` set P)"
proof -
  have "findE (has_name n) P = Inr (find (\<lambda>p. prop_name p = n) P)"
    using assms by (intro findE_Inr) (simp add: list_all_iff has_name_wf)
  then show ?thesis
    using assms by (auto simp: list_all_iff truthy_find wf_property_truthy)
qed

lemma is_reserved_str: "is_reserved (JStr s) = Inr (reserved_name (JStr s))"
  by (simp add: is_reserved_def)

lemma delete_filter_wf:
  assumes "list_all wf_property U" "wf_property c"
  shows "delete_filter (JArr U) c = Inr (\<not> reserved_name (prop_name c) \<and> prop_name c \<notin> prop_name ` set U)"
proof -
  obtain s where s: "prop_name c = JStr s"
    using wf_property_name [OF assms(2)] by (cases "prop_name c") auto
  then show ?thesis
    using assms find_has_name_wf [OF assms(1), of "JStr s"]
    by (simp add: delete_filter_def js_get_prop_field is_reserved_str)
qed

lemma create_filter_wf:
  assumes "list_all wf_property C" "wf_property u"
  shows "create_filter (JArr C) u = Inr (prop_name u \<notin> prop_name ` set C)"
  using assms find_has_name_wf [OF assms(1) wf_property_name [OF assms(2)]]
  by (simp add: create_filter_def js_get_prop_field)

lemma update_filter_wf:
  assumes "list_all wf_property C" "wf_property u"
    and agree: "case find_by_name C (prop_name u) of None \<Rightarrow> True
      | Some e \<Rightarrow> (\<forall>k\<in>set (prop_keys u). is_array (prop_field u k) \<longrightarrow> is_array (prop_field e k))"
  shows "update_filter (JArr C) u =
    Inr (case find_by_name C (prop_name u) of None \<Rightarrow> False | Some e \<Rightarrow> prop_differs u e)"
proof -
  let ?cb = "\<lambda>prop. bindE (js_get prop ''name'') (\<lambda>a.
      bindE (js_get u ''name'') (\<lambda>b. Inr (js_seq a b)))"
  have "findE ?cb C = Inr (find_by_name C (prop_name u))"
    using assms(1,2) unfolding find_by_name_def
    by (intro findE_Inr) (simp add: list_all_iff js_get_prop_field is_jstr_seq wf_property_name)
  then have found: "js_find ?cb (JArr C) =
      Inr (case find_by_name C (prop_name u) of None \<Rightarrow> JUndef | Some e \<Rightarrow> e)"
    by simp
  then have unf: "update_filter (JArr C) u =
      (let e = (case find_by_name C (prop_name u) of None \<Rightarrow> JUndef | Some e \<Rightarrow> e) in
       if \<not> js_truthy e then Inr False else property_changed u e)"
    by (simp only: update_filter_def bindE_simps Let_def)
  show ?thesis
  proof (cases "find_by_name C (prop_name u)")
    case None
    with unf show ?thesis by simp
  next
    case (Some e)
    then have "e \<in> set C" by (simp add: find_by_name_def find_Some_in_set)
    with assms(1) have "wf_property e" by (simp add: list_all_iff)
    moreover from agree Some have "\<And>k. k \<in> set (prop_keys u) \<Longrightarrow>
        is_array (prop_field u k) \<Longrightarrow> is_array (prop_field e k)" by simp
    ultimately show ?thesis
      using unf Some assms(2)
      by (simp add: wf_property_truthy property_changed_wf)
  qed
qed

section \<open>Lemmas: what a successful run implies\<close>

lemma schema_diff_Inr:
  assumes "schema_diff U C = Inr d"
  shows "\<exists>us cs. U = JArr us \<and> C = JArr cs \<and>
    filterE (delete_filter U) cs = Inr (to_delete d) \<and>
    filterE (create_filter C) us = Inr (to_create d) \<and>
    filterE (update_filter C) us = Inr (to_update d)"
proof -
  obtain cs where C: "C = JArr cs"
    using assms by (cases C) (auto simp: schema_diff_def)
  obtain us where U: "U = JArr us"
    using assms C by (cases U) (auto simp: schema_diff_def)
  from assms U C show ?thesis
    by (auto simp: schema_diff_def)
qed

lemma is_reserved_Inr_False: "is_reserved n = Inr False \<Longrightarrow> \<not> reserved_name n"
  by (cases n) (auto simp: is_reserved_def split: if_splits)

lemma delete_filter_True:
  assumes "delete_filter U p = Inr True"
  shows "\<not> reserved_name (prop_name p)"
proof -
  obtain n where n: "js_get p ''name'' = Inr n" and r: "is_reserved n = Inr False"
    using assms by (auto simp: delete_filter_def split: if_splits)
  have "n \<noteq> JUndef"
    using r by (auto simp: is_reserved_def)
  then have "n = prop_name p"
    using n by (cases p) (auto simp: prop_field_def)
  then show ?thesis
    using is_reserved_Inr_False [OF r] by simp
qed

lemma option_match_truthy_prim:
  "js_prim a \<Longrightarrow> js_truthy a \<Longrightarrow> js_prim b \<Longrightarrow> js_truthy b \<Longrightarrow> option_match a b = Inr True"
  by (cases a; cases b) (auto simp: option_match_def)

lemma should_contain_all_truthy_prim:
  assumes "list_all (\<lambda>x. js_prim x \<and> js_truthy x) xs" "list_all (\<lambda>x. js_prim x \<and> js_truthy x) ys"
  shows "should_contain_all (JArr xs) (JArr ys) = Inr (xs = [] \<or> ys \<noteq> [])"
proof -
  have "findE (option_match x) ys = Inr (find (\<lambda>y. True) ys)" if "x \<in> set xs" for x
    using assms that by (intro findE_Inr) (simp add: list_all_iff option_match_truthy_prim)
  then have "allE (\<lambda>aOption. mapE js_truthy (js_find (option_match aOption) (JArr ys))) xs =
      Inr (list_all (\<lambda>x. ys \<noteq> []) xs)"
    using assms(2) by (intro allE_Inr) (auto simp: list_all_iff truthy_find ex_in_conv)
  moreover have "list_all (\<lambda>x. ys \<noteq> []) xs = (xs = [] \<or> ys \<noteq> [])"
    by (cases xs) (auto simp: list_all_iff)
  ultimately show ?thesis
    by (simp only: should_contain_all_def js_every_JArr)
qed

lemma foldl_reduce_step:
  "foldl (reduce_step f) acc ks = bindE acc (\<lambda>a. if a then Inr True else first_change f ks)"
proof (induction ks arbitrary: acc)
  case Nil
  then show ?case by (cases acc) simp_all
next
  case (Cons k ks)
  then show ?case by (cases acc) (simp_all add: reduce_step_def)
qed

lemma create_update_exclusive:
  assumes "create_filter C u = Inr True" "update_filter C u = Inr True"
  shows False
proof -
  from assms(1) obtain n f where n: "js_get u ''name'' = Inr n"
    and f: "js_find (has_name n) C = Inr f" and nf: "\<not> js_truthy f"
    by (auto simp: create_filter_def)
  have "(\<lambda>prop. bindE (js_get prop ''name'') (\<lambda>a. bindE (js_get u ''name'') (\<lambda>b. Inr (js_seq a b))))
      = has_name n"
    using n by (auto simp: has_name_def mapE_def bindE_def split: sum.splits)
  with assms(2) f nf show False
    by (simp add: update_filter_def)
qed

lemma not_prop_differs_agree:
  assumes "\<not> prop_differs u e" "k \<in> set (prop_keys u)" "is_array (prop_field u k)"
  shows "is_array (prop_field e k)"
proof -
  from assms(3) obtain us where u: "prop_field u k = JArr us" by (cases "prop_field u k") auto
  from assms(1,2) have "\<not> field_differs (prop_field u k) (prop_field e k)"
    by (auto simp: prop_differs_def)
  with u show ?thesis by (cases "prop_field e k") auto
qed

section \<open>Properties\<close>

lemma schema_diff_spec:
  assumes "list_all wf_property U" "list_all wf_property C" "arrays_agree U C"
  shows "schema_diff (JArr U) (JArr C) = Inr (spec_diff U C)"
proof -
  have "filterE (delete_filter (JArr U)) C =
      Inr (filter (\<lambda>c. \<not> reserved_name (prop_name c) \<and> prop_name c \<notin> prop_name ` set U) C)"
    using assms(1,2) by (intro filterE_Inr) (simp add: list_all_iff delete_filter_wf)
  moreover have "filterE (create_filter (JArr C)) U = Inr (filter (\<lambda>u. prop_name u \<notin> prop_name ` set C) U)"
    using assms(1,2) by (intro filterE_Inr) (simp add: list_all_iff create_filter_wf)
  moreover have "filterE (update_filter (JArr C)) U = Inr (filter (\<lambda>u.
      case find_by_name C (prop_name u) of None \<Rightarrow> False | Some e \<Rightarrow> prop_differs u e) U)"
    using assms by (intro filterE_Inr update_filter_wf) (auto simp: list_all_iff arrays_agree_def)
  ultimately show ?thesis
    by (simp add: schema_diff_def spec_diff_def)
qed

text \<open>
  C1. On well-formed property lists whose option fields agree in shape, the
  diff \<open>updateSchema\<close> computes is exactly the abstract specification
  \<open>spec_diff\<close>: no exception, and the same three lists in the same order.
\<close>

theorem schema_diff_refines_spec:
  assumes "list_all wf_property U" "list_all wf_property C" "arrays_agree U C"
  shows "schema_diff (JArr U) (JArr C) = Inr (spec_diff U C)"
  using schema_diff_spec [OF assms] .

theorem schema_diff_refines_spec_witness:
  "list_all wf_property ex_local \<and> list_all wf_property ex_remote \<and> arrays_agree ex_local ex_remote
   \<and> schema_diff (JArr ex_local) (JArr ex_remote) = Inr (spec_diff ex_local ex_remote)
   \<and> spec_diff ex_local ex_remote = ex_diff"
proof -
  have h1: "list_all wf_property ex_local" by code_simp
  have h2: "list_all wf_property ex_remote" by code_simp
  have h3: "arrays_agree ex_local ex_remote" by code_simp
  have h4: "spec_diff ex_local ex_remote = ex_diff" by code_simp
  show ?thesis using h1 h2 h3 h4 schema_diff_refines_spec [OF h1 h2 h3] by simp
qed

text \<open>
  C2. No property whose name contains \<open>hs_\<close> or \<open>hubspot_\<close> is ever in the
  delete list of a diff that completes, whatever the input; in particular no
  platform-managed property (prefix \<open>hs_\<close> or \<open>hubspot_\<close>) is deleted. The test
  is \<open>includes\<close>, so \<open>months_active\<close> is kept as well (see the witness).
\<close>

theorem to_delete_keeps_reserved:
  assumes "schema_diff U C = Inr d" and "prop_name p = JStr s"
    and "str_contains ''hs_'' s \<or> str_contains ''hubspot_'' s"
  shows "p \<notin> set (to_delete d)"
proof
  assume p: "p \<in> set (to_delete d)"
  from schema_diff_Inr [OF assms(1)] obtain cs
    where "filterE (delete_filter U) cs = Inr (to_delete d)" by blast
  from filterE_Inr_subset [OF this p] have "delete_filter U p = Inr True" by simp
  then have "\<not> reserved_name (prop_name p)" by (rule delete_filter_True)
  with assms(2,3) show False by simp
qed

theorem to_delete_keeps_reserved_witness:
  "schema_diff (JArr ex_local) (JArr ex_remote) = Inr ex_diff
   \<and> prop_name (ex_prop ''months_active'' ''Months'') = JStr ''months_active''
   \<and> (str_contains ''hs_'' ''months_active'' \<or> str_contains ''hubspot_'' ''months_active'')
   \<and> ex_prop ''months_active'' ''Months'' \<notin> set (to_delete ex_diff)"
proof -
  have h1: "schema_diff (JArr ex_local) (JArr ex_remote) = Inr ex_diff" by code_simp
  have h2: "prop_name (ex_prop ''months_active'' ''Months'') = JStr ''months_active''" by code_simp
  have h3: "str_contains ''hs_'' ''months_active'' \<or> str_contains ''hubspot_'' ''months_active''"
    by code_simp
  show ?thesis using h1 h2 h3 to_delete_keeps_reserved [OF h1 h2 h3] by simp
qed

text \<open>
  C3. On well-formed option lists \<open>validateOptions\<close> holds exactly when the two
  lists carry the same set of label/value pairs: order and repetition are
  ignored.
\<close>

theorem validate_options_same_pairs:
  "list_all wf_option xs \<Longrightarrow> list_all wf_option ys \<Longrightarrow>
   validate_options (JArr xs) (JArr ys) = Inr True \<longleftrightarrow> set (map opt_pair xs) = set (map opt_pair ys)"
  by (simp add: validate_options_wf same_options_def)

theorem validate_options_same_pairs_witness:
  "list_all wf_option [ex_opt ''A'' ''a'', ex_opt ''B'' ''b'']
   \<and> list_all wf_option [ex_opt ''B'' ''b'', ex_opt ''A'' ''a'', ex_opt ''A'' ''a'']
   \<and> validate_options (JArr [ex_opt ''A'' ''a'', ex_opt ''B'' ''b''])
       (JArr [ex_opt ''B'' ''b'', ex_opt ''A'' ''a'', ex_opt ''A'' ''a'']) = Inr True"
proof -
  have h1: "list_all wf_option [ex_opt ''A'' ''a'', ex_opt ''B'' ''b'']" by code_simp
  have h2: "list_all wf_option [ex_opt ''B'' ''b'', ex_opt ''A'' ''a'', ex_opt ''A'' ''a'']" by code_simp
  have h3: "set (map opt_pair [ex_opt ''A'' ''a'', ex_opt ''B'' ''b''])
      = set (map opt_pair [ex_opt ''B'' ''b'', ex_opt ''A'' ''a'', ex_opt ''A'' ''a''])" by code_simp
  show ?thesis using h1 h2 h3 validate_options_same_pairs [OF h1 h2] by simp
qed

text \<open>
  C4. A diff that completes splits the input: deletions come from the remote list,
  creations and updates from the file's list, and no property is both created
  and updated.
\<close>

theorem diff_partition:
  assumes "schema_diff (JArr us) (JArr cs) = Inr d"
  shows "set (to_delete d) \<subseteq> set cs \<and> set (to_create d) \<subseteq> set us
    \<and> set (to_update d) \<subseteq> set us \<and> set (to_create d) \<inter> set (to_update d) = {}"
proof -
  have del: "filterE (delete_filter (JArr us)) cs = Inr (to_delete d)"
    and cr: "filterE (create_filter (JArr cs)) us = Inr (to_create d)"
    and up: "filterE (update_filter (JArr cs)) us = Inr (to_update d)"
    using schema_diff_Inr [OF assms] by auto
  have "set (to_create d) \<inter> set (to_update d) = {}"
    using filterE_Inr_subset [OF cr] filterE_Inr_subset [OF up] create_update_exclusive by blast
  then show ?thesis
    using filterE_Inr_subset [OF del] filterE_Inr_subset [OF cr] filterE_Inr_subset [OF up] by blast
qed

theorem diff_partition_witness:
  "schema_diff (JArr ex_local) (JArr ex_remote) = Inr ex_diff
   \<and> set (to_create ex_diff) \<inter> set (to_update ex_diff) = {}"
proof -
  have h: "schema_diff (JArr ex_local) (JArr ex_remote) = Inr ex_diff" by code_simp
  show ?thesis using h diff_partition [OF h] by simp
qed

text \<open>
  C5. A property of the file whose fields all match the remote property of the same
  name (option lists as sets) is not updated (spec section 8).
\<close>

theorem unchanged_not_updated:
  assumes "list_all wf_property C" "wf_property u"
    and "find_by_name C (prop_name u) = Some e" "\<not> prop_differs u e"
    and "schema_diff (JArr U) (JArr C) = Inr d"
  shows "u \<notin> set (to_update d)"
proof
  assume u: "u \<in> set (to_update d)"
  have "update_filter (JArr C) u = Inr False"
    using update_filter_wf [OF assms(1,2)] assms(3,4) not_prop_differs_agree by simp
  moreover from schema_diff_Inr [OF assms(5)]
  have "filterE (update_filter (JArr C)) U = Inr (to_update d)" by simp
  from filterE_Inr_subset [OF this u] have "update_filter (JArr C) u = Inr True" by simp
  ultimately show False by simp
qed

theorem unchanged_not_updated_witness:
  "list_all wf_property ex_remote \<and> wf_property (hd ex_local)
   \<and> find_by_name ex_remote (prop_name (hd ex_local)) = Some (hd ex_remote)
   \<and> \<not> prop_differs (hd ex_local) (hd ex_remote)
   \<and> schema_diff (JArr ex_local) (JArr ex_remote) = Inr ex_diff
   \<and> hd ex_local \<notin> set (to_update ex_diff)"
proof -
  have h1: "list_all wf_property ex_remote" by code_simp
  have h2: "wf_property (hd ex_local)" by code_simp
  have h3: "find_by_name ex_remote (prop_name (hd ex_local)) = Some (hd ex_remote)" by code_simp
  have h4: "\<not> prop_differs (hd ex_local) (hd ex_remote)" by code_simp
  have h5: "schema_diff (JArr ex_local) (JArr ex_remote) = Inr ex_diff" by code_simp
  show ?thesis using h1 h2 h3 h4 h5 unchanged_not_updated [OF h1 h2 h3 h4 h5] by simp
qed

text \<open>
  C6. A remote property that is not reserved and whose name the file does not
  declare is deleted (scenario 3).
\<close>

theorem to_delete_complete:
  assumes "list_all wf_property U" "list_all wf_property C"
    and "schema_diff (JArr U) (JArr C) = Inr d"
    and "c \<in> set C" "\<not> reserved_name (prop_name c)" "prop_name c \<notin> prop_name ` set U"
  shows "c \<in> set (to_delete d)"
proof -
  from schema_diff_Inr [OF assms(3)]
  have del: "filterE (delete_filter (JArr U)) C = Inr (to_delete d)" by simp
  have "wf_property c" using assms(2,4) by (simp add: list_all_iff)
  then have "delete_filter (JArr U) c = Inr True"
    using delete_filter_wf [OF assms(1)] assms(5,6) by simp
  with del assms(4) show ?thesis by (rule filterE_Inr_complete)
qed

theorem to_delete_complete_witness:
  "ex_prop ''legacy_field'' ''Legacy'' \<in> set (to_delete ex_diff)
   \<and> schema_diff (JArr ex_local) (JArr ex_remote) = Inr ex_diff"
proof -
  have h1: "list_all wf_property ex_local" by code_simp
  have h2: "list_all wf_property ex_remote" by code_simp
  have h3: "schema_diff (JArr ex_local) (JArr ex_remote) = Inr ex_diff" by code_simp
  have h4: "ex_prop ''legacy_field'' ''Legacy'' \<in> set ex_remote" by simp
  have h5: "\<not> reserved_name (prop_name (ex_prop ''legacy_field'' ''Legacy''))" by code_simp
  have h6: "prop_name (ex_prop ''legacy_field'' ''Legacy'') \<notin> prop_name ` set ex_local" by code_simp
  show ?thesis using h3 to_delete_complete [OF h1 h2 h3 h4 h5 h6] by simp
qed

text \<open>
  C7. \<open>validateOptions\<close> is symmetric on well-formed option lists (spec section 8).
\<close>

theorem validate_options_symmetric:
  "list_all wf_option xs \<Longrightarrow> list_all wf_option ys \<Longrightarrow>
   validate_options (JArr xs) (JArr ys) = validate_options (JArr ys) (JArr xs)"
  by (simp add: validate_options_wf same_options_def eq_commute)

theorem validate_options_symmetric_witness:
  "validate_options (JArr [ex_opt ''A'' ''a'']) (JArr [ex_opt ''A'' ''b''])
   = validate_options (JArr [ex_opt ''A'' ''b'']) (JArr [ex_opt ''A'' ''a''])"
proof -
  have h1: "list_all wf_option [ex_opt ''A'' ''a'']" by code_simp
  have h2: "list_all wf_option [ex_opt ''A'' ''b'']" by code_simp
  show ?thesis by (rule validate_options_symmetric [OF h1 h2])
qed

text \<open>
  C8. \<open>validateOptions\<close> is reflexive on well-formed option lists (spec section 8).
\<close>

theorem validate_options_reflexive:
  "list_all wf_option xs \<Longrightarrow> validate_options (JArr xs) (JArr xs) = Inr True"
  by (simp add: validate_options_wf same_options_def)

theorem validate_options_reflexive_witness:
  "validate_options (JArr [ex_opt ''A'' ''a'', ex_opt ''B'' ''b''])
     (JArr [ex_opt ''A'' ''a'', ex_opt ''B'' ''b'']) = Inr True"
proof -
  have h: "list_all wf_option [ex_opt ''A'' ''a'', ex_opt ''B'' ''b'']" by code_simp
  show ?thesis by (rule validate_options_reflexive [OF h])
qed

text \<open>
  C9. When the file's field is an array and the remote property's field is not one
  (absent, a string, an object), \<open>validateOptions\<close> throws a \<open>TypeError\<close>,
  whatever the array holds: \<open>find\<close> or \<open>every\<close> is called on a non-array.
\<close>

theorem validate_options_non_array_error:
  assumes "\<not> is_array e"
  shows "validate_options (JArr xs) e = Inl TypeError"
proof (cases xs)
  case Nil
  with assms show ?thesis
    by (simp add: validate_options_def should_contain_all_def)
next
  case (Cons x xs')
  with assms show ?thesis
    by (simp add: validate_options_def should_contain_all_def)
qed

theorem validate_options_non_array_error_witness:
  "\<not> is_array JUndef \<and> validate_options (JArr [ex_opt ''A'' ''a'']) JUndef = Inl TypeError"
proof -
  have h: "\<not> is_array JUndef" by simp
  show ?thesis using h validate_options_non_array_error [OF h] by simp
qed

text \<open>
  C10. The \<open>reduce\<close> over \<open>Object.keys\<close> in the update filter is short-circuit
  evaluation of the field comparisons: it stops at the first field that
  differs, and a field after it is never compared (so cannot throw).
\<close>

theorem property_changed_short_circuit:
  "property_changed u e = bindE (js_keys u) (first_change (field_changed u e))"
  by (simp add: property_changed_def foldl_reduce_step)

text \<open>
  C11. Arrays whose elements are non-empty strings, non-zero numbers or \<open>true\<close> are
  compared by their (absent) \<open>label\<close> and \<open>value\<close>: \<open>validateOptions\<close> reports
  them equal whenever both are non-empty, whatever their contents.
\<close>

theorem validate_options_primitive_arrays:
  assumes "list_all (\<lambda>x. js_prim x \<and> js_truthy x) xs" "list_all (\<lambda>x. js_prim x \<and> js_truthy x) ys"
  shows "validate_options (JArr xs) (JArr ys) = Inr ((xs = []) = (ys = []))"
  using assms by (auto simp: validate_options_def should_contain_all_truthy_prim)

theorem validate_options_primitive_arrays_witness:
  "validate_options (JArr [JStr ''red'']) (JArr [JStr ''blue'', JNum 3]) = Inr True"
proof -
  have h1: "list_all (\<lambda>x. js_prim x \<and> js_truthy x) [JStr ''red'']" by code_simp
  have h2: "list_all (\<lambda>x. js_prim x \<and> js_truthy x) [JStr ''blue'', JNum 3]" by code_simp
  show ?thesis using validate_options_primitive_arrays [OF h1 h2] by simp
qed

text \<open>
  C23. A field whose value is an object makes its property differ from every
  remote property, itself included, because \<open>!==\<close> compares objects by
  identity: a well-formed property with such a field, diffed against an
  identical remote copy, is always in the update list, so \<open>update\<close> is not
  idempotent on such schemas (spec section 7).
\<close>

theorem nested_object_always_updated:
  assumes "wf_property u" "k \<in> set (prop_keys u)" "prop_field u k = JObj gs"
  shows "schema_diff (JArr [u]) (JArr [u]) = Inr \<lparr>to_delete = [], to_create = [], to_update = [u]\<rparr>"
proof -
  have wf: "list_all wf_property [u]" using assms(1) by simp
  have "find_by_name [u] (prop_name u) = Some u" by (simp add: find_by_name_def)
  moreover have "prop_differs u u"
    unfolding prop_differs_def using assms(2,3) by (intro bexI [of _ k]) simp_all
  ultimately have "update_filter (JArr [u]) u = Inr True"
    using update_filter_wf [OF wf assms(1)] by simp
  then show ?thesis
    using delete_filter_wf [OF wf assms(1)] create_filter_wf [OF wf assms(1)]
    by (simp add: schema_diff_def)
qed

theorem nested_object_always_updated_witness:
  "schema_diff (JArr [JObj [(''name'', JStr ''address''), (''type'', JStr ''string''),
       (''modificationMetadata'', JObj [(''readOnlyValue'', JBool False)])]])
     (JArr [JObj [(''name'', JStr ''address''), (''type'', JStr ''string''),
       (''modificationMetadata'', JObj [(''readOnlyValue'', JBool False)])]])
   = Inr \<lparr>to_delete = [], to_create = [], to_update = [JObj [(''name'', JStr ''address''),
       (''type'', JStr ''string''), (''modificationMetadata'', JObj [(''readOnlyValue'', JBool False)])]]\<rparr>"
  by (rule nested_object_always_updated [of _ "''modificationMetadata''"])
     (simp_all add: prop_field_def obj_lookup_def)

end
