(* ===== verification/Remote_Client.thy ===== *)
theory Remote_Client
  imports Js_Value "HOL-Library.Sublist"
begin

text \<open>
  The remote schema client of cli.ts (lines 14--66): the HTTP calls the program
  makes and the logging around them. The remote registry itself is outside the
  repository, so the model is parametric in it: a \<open>server\<close> answers a
  \<open>request\<close> in its world \<open>'w\<close> with a response body or an error (axios
  rejects on network failures and non-2xx statuses) and a new world. The
  program's state \<open>'w rt\<close> is that world and the trace of observable events:
  every request sent and every line printed by \<open>console.log\<close>, in order.
  \<^item> \<open>http\<close>: one call of the axios instance \<open>hs\<close> (base URL and API key are
    fixed and omitted from the path);
  \<^item> \<open>get_existing_schemas\<close>: \<open>getExistingSchemas\<close>, with lodash \<open>keyBy\<close> as
    \<open>key_by_name\<close>;
  \<^item> \<open>create_schema\<close>, \<open>create_association\<close>, \<open>delete_schema\<close>: the three
    client functions, each with its \<open>try/catch\<close>.
  The index \<open>meta\<close> of the program, a plain object keyed by schema name, is a
  map \<open>string \<rightharpoonup> jval\<close>; keys inherited from \<open>Object.prototype\<close> are not
  modelled.
\<close>

datatype http_method = GET | POST | DELETE | PATCH

record request =
  req_method :: http_method
  req_path :: string
  req_body :: "jval option"

datatype event = Sent request | Logged string | LoggedError error

type_synonym 'w server = "request \<Rightarrow> 'w \<Rightarrow> (error + jval) \<times> 'w"

record 'w rt =
  world :: 'w
  trace :: "event list"

type_synonym ('w, 'a) prog = "('w rt, error, 'a) eff"

type_synonym index = "string \<rightharpoonup> jval"

section \<open>Primitive effects\<close>

definition http :: "'w server \<Rightarrow> request \<Rightarrow> ('w, jval) prog" where
  "http srv rq s =
     (let (r, w') = srv rq (world s) in (r, s\<lparr>world := w', trace := trace s @ [Sent rq]\<rparr>))"

definition console_log :: "string \<Rightarrow> ('w, unit) prog" where
  "console_log msg s = (Inr (), s\<lparr>trace := trace s @ [Logged msg]\<rparr>)"

definition console_log_error :: "error \<Rightarrow> ('w, unit) prog" where
  "console_log_error e s = (Inr (), s\<lparr>trace := trace s @ [LoggedError e]\<rparr>)"

definition req :: "http_method \<Rightarrow> string \<Rightarrow> jval option \<Rightarrow> request" where
  "req m p b = \<lparr>req_method = m, req_path = p, req_body = b\<rparr>"

section \<open>getExistingSchemas\<close>

text \<open>lodash's \<open>property("name")\<close>: \<open>undefined\<close> on \<open>null\<close> and \<open>undefined\<close>.\<close>

definition lodash_property :: "jval \<Rightarrow> string \<Rightarrow> jval" where
  "lodash_property v k = (case js_get v k of Inl e \<Rightarrow> JUndef | Inr r \<Rightarrow> r)"

definition key_by_name_list :: "jval list \<Rightarrow> index" where
  "key_by_name_list xs =
     foldl (\<lambda>m x. m(js_to_string (lodash_property x ''name'') \<mapsto> x)) Map.empty xs"

text \<open>\<open>keyBy(collection, "name")\<close>: arrays and the values of objects are
  iterated, strings by character, anything else gives \<open>{}\<close>.\<close>

fun key_by_name :: "jval \<Rightarrow> index" where
  "key_by_name (JArr xs) = key_by_name_list xs"
| "key_by_name (JObj fs) = key_by_name_list (map snd fs)"
| "key_by_name (JStr s) = key_by_name_list (map (\<lambda>c. JStr [c]) s)"
| "key_by_name v = Map.empty"

definition get_existing_schemas :: "'w server \<Rightarrow> ('w, index) prog" where
  "get_existing_schemas srv =
     bindS (http srv (req GET ''/crm/v3/schemas'' None)) (\<lambda>data.
       liftE (mapE key_by_name (js_get data ''results'')))"

section \<open>createSchema, createAssociation, deleteSchema\<close>

text \<open>Returns the new \<open>objectTypeId\<close>, or \<open>null\<close> after logging a failure.\<close>

definition create_schema :: "'w server \<Rightarrow> jval \<Rightarrow> ('w, jval) prog" where
  "create_schema srv objectSchema =
     catchS
       (bindS (http srv (req POST ''/crm/v3/schemas'' (Some objectSchema))) (\<lambda>data.
          liftE (js_get data ''objectTypeId'')))
       (\<lambda>e. bindS (liftE (js_get objectSchema ''name'')) (\<lambda>n.
              bindS (console_log (''Failed to Create Schema '' @ js_to_string n)) (\<lambda>_.
                returnS JNull)))"

definition create_association :: "'w server \<Rightarrow> jval \<Rightarrow> ('w, jval) prog" where
  "create_association srv association =
     catchS
       (bindS (liftE (js_get association ''fromObjectTypeId'')) (\<lambda>fromId.
          http srv (req POST (''/crm/v3/schemas/'' @ js_to_string fromId @ ''/associations'')
                      (Some association))))
       (\<lambda>e. bindS (liftE (js_get association ''name'')) (\<lambda>n.
              bindS (console_log (''Failed to Create Association '' @ js_to_string n)) (\<lambda>_.
                returnS JUndef)))"

text \<open>\<open>.catch((e) => { console.log(e); throw e; })\<close>\<close>

definition log_rethrow :: "('w, jval) prog \<Rightarrow> ('w, jval) prog" where
  "log_rethrow m = catchS m (\<lambda>e. bindS (console_log_error e) (\<lambda>_. throwS e))"

definition delete_schema :: "'w server \<Rightarrow> jval \<Rightarrow> ('w, bool) prog" where
  "delete_schema srv objectTypeId =
     catchS
       (bindS (log_rethrow (http srv (req DELETE (''/crm/v3/schemas/'' @ js_to_string objectTypeId) None)))
          (\<lambda>_. bindS (log_rethrow (http srv
                 (req DELETE (''/crm/v3/schemas/'' @ js_to_string objectTypeId @ ''/purge'') None)))
          (\<lambda>_. returnS True)))
       (\<lambda>e. bindS (console_log (''Failed to Delete Schema '' @ js_to_string objectTypeId)) (\<lambda>_.
              returnS False))"

section \<open>Requests sent\<close>

text \<open>
  Properties of programs stated over their trace. \<open>sent t\<close> are the requests
  of a trace segment. \<open>sends_prefix m rqs\<close>: whatever the server answers, a
  run of \<open>m\<close> sends a prefix of \<open>rqs\<close>, and all of \<open>rqs\<close> when it returns
  normally; \<open>sends_exactly\<close>: exactly \<open>rqs\<close>; \<open>sends_only P\<close>: only requests
  satisfying \<open>P\<close>; \<open>sends_then P Q\<close>: requests satisfying \<open>P\<close>, then requests
  satisfying \<open>Q\<close>. Each comes with composition rules for \<open>bindS\<close>,
  \<open>catchS\<close> and the primitive effects, so a property of a whole command is
  assembled from those of its steps.
\<close>

definition sent :: "event list \<Rightarrow> request list" where
  "sent t = concat (map (\<lambda>e. case e of Sent rq \<Rightarrow> [rq] | _ \<Rightarrow> []) t)"

definition sends_prefix :: "('w, 'a) prog \<Rightarrow> request list \<Rightarrow> bool" where
  "sends_prefix m rqs \<longleftrightarrow>
     (\<forall>s r s'. m s = (r, s') \<longrightarrow>
        (\<exists>t. trace s' = trace s @ t \<and> prefix (sent t) rqs \<and> (\<not> isl r \<longrightarrow> sent t = rqs)))"

definition sends_exactly :: "('w, 'a) prog \<Rightarrow> request list \<Rightarrow> bool" where
  "sends_exactly m rqs \<longleftrightarrow> (\<forall>s r s'. m s = (r, s') \<longrightarrow> (\<exists>t. trace s' = trace s @ t \<and> sent t = rqs))"

definition sends_only :: "(request \<Rightarrow> bool) \<Rightarrow> ('w, 'a) prog \<Rightarrow> bool" where
  "sends_only P m \<longleftrightarrow>
     (\<forall>s r s'. m s = (r, s') \<longrightarrow> (\<exists>t. trace s' = trace s @ t \<and> (\<forall>rq\<in>set (sent t). P rq)))"

definition sends_then :: "(request \<Rightarrow> bool) \<Rightarrow> (request \<Rightarrow> bool) \<Rightarrow> ('w, 'a) prog \<Rightarrow> bool" where
  "sends_then P Q m \<longleftrightarrow>
     (\<forall>s r s'. m s = (r, s') \<longrightarrow>
        (\<exists>t1 t2. trace s' = trace s @ t1 @ t2 \<and> (\<forall>rq\<in>set (sent t1). P rq) \<and> (\<forall>rq\<in>set (sent t2). Q rq)))"

definition schema_request :: "request \<Rightarrow> bool" where
  "schema_request rq \<longleftrightarrow> req_path rq = ''/crm/v3/schemas''"

definition association_request :: "request \<Rightarrow> bool" where
  "association_request rq \<longleftrightarrow>
     req_method rq = POST \<and> (\<exists>x. req_path rq = ''/crm/v3/schemas/'' @ x @ ''/associations'')"

section \<open>Lemmas\<close>

lemma http_Pair:
  "srv rq (world s) = (r, w) \<Longrightarrow> http srv rq s = (r, s\<lparr>world := w, trace := trace s @ [Sent rq]\<rparr>)"
  by (simp add: http_def)

lemma console_log_apply [simp]:
  "console_log msg s = (Inr (), s\<lparr>trace := trace s @ [Logged msg]\<rparr>)"
  "console_log_error e s = (Inr (), s\<lparr>trace := trace s @ [LoggedError e]\<rparr>)"
  by (simp_all add: console_log_def console_log_error_def)

lemma sent_simps [simp]:
  "sent [] = []" "sent (e # t) = (case e of Sent rq \<Rightarrow> [rq] | _ \<Rightarrow> []) @ sent t"
  "sent (t @ u) = sent t @ sent u"
  by (simp_all add: sent_def)

lemma sends_exactly_prefix: "sends_exactly m rqs \<Longrightarrow> sends_prefix m rqs"
  by (fastforce simp: sends_exactly_def sends_prefix_def)

lemma sends_exactly_basic:
  "sends_exactly (http srv rq) [rq]"
  "sends_exactly (console_log msg) []"
  "sends_exactly (console_log_error e) []"
  "sends_exactly (liftE x) []"
  "sends_exactly (returnS a) []"
  "sends_exactly (throwS e) []"
  by (auto simp: sends_exactly_def http_def console_log_def console_log_error_def eff_simps
      split: prod.splits)

lemma sends_prefix_bind:
  assumes "sends_prefix m A" "\<And>a. sends_prefix (f a) B"
  shows "sends_prefix (bindS m f) (A @ B)"
  unfolding sends_prefix_def
proof (intro allI impI)
  fix s r s'
  assume run: "bindS m f s = (r, s')"
  obtain r1 s1 where m: "m s = (r1, s1)" by fastforce
  from assms(1) m obtain t1 where t1: "trace s1 = trace s @ t1" "prefix (sent t1) A"
    "\<not> isl r1 \<longrightarrow> sent t1 = A"
    unfolding sends_prefix_def by blast
  show "\<exists>t. trace s' = trace s @ t \<and> prefix (sent t) (A @ B) \<and> (\<not> isl r \<longrightarrow> sent t = A @ B)"
  proof (cases r1)
    case (Inl e)
    with run m t1 show ?thesis by (auto simp: bindS_def intro: prefix_prefix)
  next
    case (Inr a)
    with run m have "f a s1 = (r, s')" by (simp add: bindS_def)
    with assms(2) obtain t2 where "trace s' = trace s1 @ t2" "prefix (sent t2) B"
      "\<not> isl r \<longrightarrow> sent t2 = B"
      unfolding sends_prefix_def by blast
    with t1 Inr show ?thesis by (auto intro: exI [of _ "t1 @ t2"])
  qed
qed

lemma sends_prefix_bind_exactly:
  "sends_exactly m A \<Longrightarrow> (\<And>a. sends_prefix (f a) B) \<Longrightarrow> sends_prefix (bindS m f) (A @ B)"
  by (rule sends_prefix_bind) (simp_all add: sends_exactly_prefix)

lemma sends_exactly_catch_silent:
  assumes "sends_exactly m A" "\<And>e. sends_exactly (h e) []"
  shows "sends_exactly (catchS m h) A"
  unfolding sends_exactly_def
proof (intro allI impI)
  fix s r s'
  assume run: "catchS m h s = (r, s')"
  obtain r1 s1 where m: "m s = (r1, s1)" by fastforce
  from assms(1) m obtain t1 where t1: "trace s1 = trace s @ t1" "sent t1 = A"
    unfolding sends_exactly_def by blast
  show "\<exists>t. trace s' = trace s @ t \<and> sent t = A"
  proof (cases r1)
    case (Inl e)
    with run m have "h e s1 = (r, s')" by (simp add: catchS_def)
    with assms(2) obtain t2 where "trace s' = trace s1 @ t2" "sent t2 = []"
      unfolding sends_exactly_def by blast
    with t1 show ?thesis by auto
  next
    case (Inr a)
    with run m t1 show ?thesis by (auto simp: catchS_def)
  qed
qed

lemma sends_prefix_throw: "sends_prefix (throwS e) B"
  by (simp add: sends_prefix_def eff_simps)

lemma sends_exactly_bind_silent:
  assumes "sends_exactly m A" "\<And>a. sends_exactly (f a) []"
  shows "sends_exactly (bindS m f) A"
  unfolding sends_exactly_def
proof (intro allI impI)
  fix s r s'
  assume run: "bindS m f s = (r, s')"
  obtain r1 s1 where m: "m s = (r1, s1)" by fastforce
  from assms(1) m obtain t1 where t1: "trace s1 = trace s @ t1" "sent t1 = A"
    unfolding sends_exactly_def by blast
  show "\<exists>t. trace s' = trace s @ t \<and> sent t = A"
  proof (cases r1)
    case (Inl e)
    with run m t1 show ?thesis by (auto simp: bindS_def)
  next
    case (Inr a)
    with run m have "f a s1 = (r, s')" by (simp add: bindS_def)
    with assms(2) obtain t2 where "trace s' = trace s1 @ t2" "sent t2 = []"
      unfolding sends_exactly_def by blast
    with t1 show ?thesis by auto
  qed
qed

lemma sends_only_basic:
  "P rq \<Longrightarrow> sends_only P (http srv rq)"
  "sends_only P (console_log msg)"
  "sends_only P (console_log_error e)"
  "sends_only P (liftE x)"
  "sends_only P (returnS a)"
  "sends_only P (throwS e)"
  by (auto simp: sends_only_def http_def console_log_def console_log_error_def eff_simps split: prod.splits)

lemma sends_only_bind:
  assumes "sends_only P m" "\<And>a. sends_only P (f a)"
  shows "sends_only P (bindS m f)"
  unfolding sends_only_def
proof (intro allI impI)
  fix s r s'
  assume run: "bindS m f s = (r, s')"
  obtain r1 s1 where m: "m s = (r1, s1)" by fastforce
  from assms(1) m obtain t1 where t1: "trace s1 = trace s @ t1" "\<forall>rq\<in>set (sent t1). P rq"
    unfolding sends_only_def by blast
  show "\<exists>t. trace s' = trace s @ t \<and> (\<forall>rq\<in>set (sent t). P rq)"
  proof (cases r1)
    case (Inl e)
    with run m t1 show ?thesis by (auto simp: bindS_def)
  next
    case (Inr a)
    with run m have "f a s1 = (r, s')" by (simp add: bindS_def)
    with assms(2) obtain t2 where "trace s' = trace s1 @ t2" "\<forall>rq\<in>set (sent t2). P rq"
      unfolding sends_only_def by blast
    with t1 show ?thesis by (auto intro: exI [of _ "t1 @ t2"])
  qed
qed

lemma sends_only_catch:
  assumes "sends_only P m" "\<And>e. sends_only P (h e)"
  shows "sends_only P (catchS m h)"
  unfolding sends_only_def
proof (intro allI impI)
  fix s r s'
  assume run: "catchS m h s = (r, s')"
  obtain r1 s1 where m: "m s = (r1, s1)" by fastforce
  from assms(1) m obtain t1 where t1: "trace s1 = trace s @ t1" "\<forall>rq\<in>set (sent t1). P rq"
    unfolding sends_only_def by blast
  show "\<exists>t. trace s' = trace s @ t \<and> (\<forall>rq\<in>set (sent t). P rq)"
  proof (cases r1)
    case (Inl e)
    with run m have "h e s1 = (r, s')" by (simp add: catchS_def)
    with assms(2) obtain t2 where "trace s' = trace s1 @ t2" "\<forall>rq\<in>set (sent t2). P rq"
      unfolding sends_only_def by blast
    with t1 show ?thesis by (auto intro: exI [of _ "t1 @ t2"])
  next
    case (Inr a)
    with run m t1 show ?thesis by (auto simp: catchS_def)
  qed
qed

lemma sends_only_if: "sends_only P m1 \<Longrightarrow> sends_only P m2 \<Longrightarrow> sends_only P (if b then m1 else m2)"
  by simp

lemmas sends_only_intros = sends_only_bind sends_only_catch sends_only_if sends_only_basic

lemma sends_only_run:
  "sends_only P m \<Longrightarrow> \<exists>t. trace (snd (m s)) = trace s @ t \<and> (\<forall>rq\<in>set (sent t). P rq)"
  unfolding sends_only_def by (metis prod.collapse)

lemma sends_only_mono:
  "sends_only P m \<Longrightarrow> (\<And>rq. P rq \<Longrightarrow> Q rq) \<Longrightarrow> sends_only Q m"
  unfolding sends_only_def by blast

lemma sends_then_bind:
  assumes "sends_only P m" "\<And>a. sends_only Q (f a)"
  shows "sends_then P Q (bindS m f)"
  unfolding sends_then_def
proof (intro allI impI)
  fix s r s'
  assume run: "bindS m f s = (r, s')"
  obtain r1 s1 where m: "m s = (r1, s1)" by fastforce
  from assms(1) m obtain t1 where t1: "trace s1 = trace s @ t1" "\<forall>rq\<in>set (sent t1). P rq"
    unfolding sends_only_def by blast
  show "\<exists>t1 t2. trace s' = trace s @ t1 @ t2 \<and> (\<forall>rq\<in>set (sent t1). P rq) \<and> (\<forall>rq\<in>set (sent t2). Q rq)"
  proof (cases r1)
    case (Inl e)
    with run m have "s' = s1" by (simp add: bindS_def)
    with t1 show ?thesis by (intro exI [of _ t1] exI [of _ "[]"]) simp
  next
    case (Inr a)
    with run m have "f a s1 = (r, s')" by (simp add: bindS_def)
    with assms(2) obtain t2 where "trace s' = trace s1 @ t2" "\<forall>rq\<in>set (sent t2). Q rq"
      unfolding sends_only_def by blast
    with t1 show ?thesis by auto
  qed
qed

lemma sends_then_prepend:
  assumes "sends_only P m" "\<And>a. sends_then P Q (f a)"
  shows "sends_then P Q (bindS m f)"
  unfolding sends_then_def
proof (intro allI impI)
  fix s r s'
  assume run: "bindS m f s = (r, s')"
  obtain r1 s1 where m: "m s = (r1, s1)" by fastforce
  from assms(1) m obtain t1 where t1: "trace s1 = trace s @ t1" "\<forall>rq\<in>set (sent t1). P rq"
    unfolding sends_only_def by blast
  show "\<exists>t1 t2. trace s' = trace s @ t1 @ t2 \<and> (\<forall>rq\<in>set (sent t1). P rq) \<and> (\<forall>rq\<in>set (sent t2). Q rq)"
  proof (cases r1)
    case (Inl e)
    with run m have "s' = s1" by (simp add: bindS_def)
    with t1 show ?thesis by (intro exI [of _ t1] exI [of _ "[]"]) simp
  next
    case (Inr a)
    with run m have "f a s1 = (r, s')" by (simp add: bindS_def)
    with assms(2) obtain u1 u2 where "trace s' = trace s1 @ u1 @ u2" "\<forall>rq\<in>set (sent u1). P rq"
      "\<forall>rq\<in>set (sent u2). Q rq"
      unfolding sends_then_def by blast
    with t1 show ?thesis by (intro exI [of _ "t1 @ u1"] exI [of _ u2]) auto
  qed
qed

lemma create_schema_sends: "sends_only schema_request (create_schema srv sch)"
  unfolding create_schema_def
  by (intro sends_only_intros) (simp add: schema_request_def req_def)

lemma get_existing_schemas_sends: "sends_only schema_request (get_existing_schemas srv)"
  unfolding get_existing_schemas_def
  by (intro sends_only_intros) (simp add: schema_request_def req_def)

lemma create_association_sends: "sends_only association_request (create_association srv a)"
  unfolding create_association_def
  by (intro sends_only_intros) (auto simp: association_request_def req_def)

lemma lodash_property_nullish [simp]:
  "lodash_property JUndef k = JUndef" "lodash_property JNull k = JUndef"
  by (simp_all add: lodash_property_def)

lemma key_by_name_list_step:
  "foldl (\<lambda>m x. m(js_to_string (lodash_property x ''name'') \<mapsto> x)) m0 xs k =
   (case filter (\<lambda>x. js_to_string (lodash_property x ''name'') = k) xs of
      [] \<Rightarrow> m0 k | ys \<Rightarrow> Some (last ys))"
  by (induction xs arbitrary: m0) (auto split: list.splits)

lemma get_existing_schemas_Inr:
  "srv (req GET ''/crm/v3/schemas'' None) (world s) = (Inr data, w) \<Longrightarrow>
   js_get data ''results'' = Inr res \<Longrightarrow>
   get_existing_schemas srv s =
     (Inr (key_by_name res),
      s\<lparr>world := w, trace := trace s @ [Sent (req GET ''/crm/v3/schemas'' None)]\<rparr>)"
  by (simp add: get_existing_schemas_def http_Pair eff_simps)

text \<open>On an object \<open>createSchema\<close> returns and sends its one POST.\<close>

lemma create_schema_run:
  "\<exists>r s'. create_schema srv (JObj fs) s = (Inr r, s') \<and>
     (\<exists>t. trace s' = trace s @ t \<and> sent t = [req POST ''/crm/v3/schemas'' (Some (JObj fs))])"
proof -
  obtain r w where "srv (req POST ''/crm/v3/schemas'' (Some (JObj fs))) (world s) = (r, w)"
    by fastforce
  then show ?thesis
    by (cases r) (auto simp: create_schema_def eff_simps http_Pair split: sum.splits)
qed

text \<open>\<open>deleteSchema\<close> returns, having sent the soft delete and perhaps the purge.\<close>

lemma delete_schema_run:
  "\<exists>b s'. delete_schema srv i s = (Inr b, s') \<and>
     (\<exists>t. trace s' = trace s @ t \<and>
        (sent t = [req DELETE (''/crm/v3/schemas/'' @ js_to_string i) None]
         \<or> sent t = [req DELETE (''/crm/v3/schemas/'' @ js_to_string i) None,
                    req DELETE (''/crm/v3/schemas/'' @ js_to_string i @ ''/purge'') None]))"
proof -
  obtain r1 w1 where 1: "srv (req DELETE (''/crm/v3/schemas/'' @ js_to_string i) None) (world s) = (r1, w1)"
    by fastforce
  obtain r2 w2 where 2: "srv (req DELETE (''/crm/v3/schemas/'' @ js_to_string i @ ''/purge'') None) w1
      = (r2, w2)"
    by fastforce
  show ?thesis
    using 1 2 by (cases r1; cases r2) (auto simp: delete_schema_def log_rethrow_def eff_simps http_Pair)
qed

section \<open>Properties\<close>

text \<open>
  C12. \<open>deleteSchema\<close> is a two-step delete that never throws: it sends the
  soft delete, and the purge only if the soft delete succeeded; it returns
  \<open>true\<close> exactly when both succeeded, and otherwise logs the error and the
  failure line and returns \<open>false\<close>. A failed purge leaves the remote object
  soft-deleted, and nothing in the model or the code repairs it.
\<close>

theorem delete_schema_two_step:
  "delete_schema srv i s =
    (let d = req DELETE (''/crm/v3/schemas/'' @ js_to_string i) None;
         p = req DELETE (''/crm/v3/schemas/'' @ js_to_string i @ ''/purge'') None;
         fail = Logged (''Failed to Delete Schema '' @ js_to_string i)
     in case srv d (world s) of
          (Inl e, w) \<Rightarrow> (Inr False, s\<lparr>world := w, trace := trace s @ [Sent d, LoggedError e, fail]\<rparr>)
        | (Inr _, w) \<Rightarrow>
            (case srv p w of
               (Inl e, w') \<Rightarrow>
                 (Inr False, s\<lparr>world := w', trace := trace s @ [Sent d, Sent p, LoggedError e, fail]\<rparr>)
             | (Inr _, w') \<Rightarrow> (Inr True, s\<lparr>world := w', trace := trace s @ [Sent d, Sent p]\<rparr>)))"
proof -
  define d where "d = req DELETE (''/crm/v3/schemas/'' @ js_to_string i) None"
  define p where "p = req DELETE (''/crm/v3/schemas/'' @ js_to_string i @ ''/purge'') None"
  define fail where "fail = Logged (''Failed to Delete Schema '' @ js_to_string i)"
  obtain r1 w1 where 1: "srv d (world s) = (r1, w1)" by fastforce
  obtain r2 w2 where 2: "srv p w1 = (r2, w2)" by fastforce
  show ?thesis
    unfolding delete_schema_def log_rethrow_def Let_def d_def [symmetric] p_def [symmetric]
      fail_def [symmetric]
    using 1 2 by (cases r1; cases r2) (simp_all add: eff_simps http_Pair fail_def)
qed

text \<open>
  C13. \<open>createSchema\<close> never throws on a schema object: it sends one POST and
  returns the \<open>objectTypeId\<close> of the response, or, when the request fails or
  the response has no readable \<open>objectTypeId\<close>, logs the failure with the
  schema's name and returns \<open>null\<close>. This is what lets a batch continue past a
  failed item.
\<close>

theorem create_schema_never_throws:
  "create_schema srv (JObj fs) s =
    (let rq = req POST ''/crm/v3/schemas'' (Some (JObj fs));
         fail = Logged (''Failed to Create Schema '' @ js_to_string (obj_lookup fs ''name''))
     in case srv rq (world s) of
          (Inr data, w) \<Rightarrow>
            (case js_get data ''objectTypeId'' of
               Inr i \<Rightarrow> (Inr i, s\<lparr>world := w, trace := trace s @ [Sent rq]\<rparr>)
             | Inl _ \<Rightarrow> (Inr JNull, s\<lparr>world := w, trace := trace s @ [Sent rq, fail]\<rparr>))
        | (Inl e, w) \<Rightarrow> (Inr JNull, s\<lparr>world := w, trace := trace s @ [Sent rq, fail]\<rparr>))"
proof -
  define rq where "rq = req POST ''/crm/v3/schemas'' (Some (JObj fs))"
  obtain r w where 1: "srv rq (world s) = (r, w)" by fastforce
  show ?thesis
    unfolding create_schema_def Let_def rq_def [symmetric]
    using 1 by (cases r) (auto simp: eff_simps http_Pair split: sum.splits)
qed

end
