(* ===== verification/Schema_Loader.thy ===== *)
theory Schema_Loader
  imports Js_Value
begin

text \<open>
  The local side of cli.ts: how a path found by the glob becomes a file to read
  and an object-type identifier, and how a schema's \<open>associations\<close> become
  association requests.
  \<^item> \<open>object_type_match\<close> is \<open>x.match(objectTypeRegex)\<close> for the regular
    expression \<open>[/a-zA-Z0-9]+/([a-z_]+).json\<close> (line 10, used at lines 77,
    123, 213): the leftmost match, each greedy quantifier tried from its longest
    run down, as ECMAScript's backtracking does. The result is the matched text
    (\<open>match[0]\<close>, which the program reads as the file path) and the group
    (\<open>match[1]\<close>, the identifier); \<open>None\<close> is \<open>null\<close>. The regular expression
    is not anchored and \<open>.\<close> is any character but a line terminator.
  \<^item> \<open>association_requests\<close> is the \<open>forEach\<close> of lines 85--91 over the value
    \<open>pick\<close> returned: each target gives the object \<open>{toObjectTypeId,
    fromObjectTypeId, name}\<close>; a truthy non-array has no \<open>forEach\<close> and throws.
  Reading a file (\<open>readJSON\<close>, line 21) is a parameter \<open>fs\<close> of the commands:
  the file system and \<open>JSON.parse\<close> are outside the program.
\<close>

definition char_in :: "nat \<Rightarrow> nat \<Rightarrow> char \<Rightarrow> bool" where
  "char_in lo hi c \<longleftrightarrow> lo \<le> of_char c \<and> of_char c \<le> hi"

text \<open>\<open>[/a-zA-Z0-9]\<close> and \<open>[a-z_]\<close>, by character code.\<close>

definition is_path_char :: "char \<Rightarrow> bool" where
  "is_path_char c \<longleftrightarrow>
     c = CHR ''/'' \<or> char_in 97 122 c \<or> char_in 65 90 c \<or> char_in 48 57 c"

definition is_ident_char :: "char \<Rightarrow> bool" where
  "is_ident_char c \<longleftrightarrow> char_in 97 122 c \<or> c = CHR ''_''"

definition is_line_terminator :: "char \<Rightarrow> bool" where
  "is_line_terminator c \<longleftrightarrow> c = CHR 0x0A \<or> c = CHR 0x0D"

text \<open>\<open>.json\<close> after the group: one character that is no line terminator, then
  \<open>json\<close>.\<close>

fun dot_json :: "string \<Rightarrow> bool" where
  "dot_json (c # r) = (\<not> is_line_terminator c \<and> take 4 r = ''json'')"
| "dot_json [] = False"

text \<open>\<open>([a-z_]+).json\<close> at the start of \<open>t\<close>: the group's length, longest first.\<close>

definition match_group :: "string \<Rightarrow> nat option" where
  "match_group t =
     find (\<lambda>m. dot_json (drop m t)) (rev [1..<Suc (length (takeWhile is_ident_char t))])"

text \<open>\<open>[/a-zA-Z0-9]+/\<close> with its candidate lengths \<open>ks\<close>, longest first, then the
  rest of the pattern.\<close>

fun match_prefix :: "string \<Rightarrow> nat list \<Rightarrow> (string \<times> string) option" where
  "match_prefix t [] = None"
| "match_prefix t (k # ks) =
     (if k < length t \<and> t ! k = CHR ''/'' then
        (case match_group (drop (Suc k) t) of
           Some m \<Rightarrow> Some (take (Suc k + m + 5) t, take m (drop (Suc k) t))
         | None \<Rightarrow> match_prefix t ks)
      else match_prefix t ks)"

definition match_at :: "string \<Rightarrow> (string \<times> string) option" where
  "match_at t = match_prefix t (rev [1..<Suc (length (takeWhile is_path_char t))])"

fun object_type_match :: "string \<Rightarrow> (string \<times> string) option" where
  "object_type_match [] = None"
| "object_type_match (c # cs) =
     (case match_at (c # cs) of Some r \<Rightarrow> Some r | None \<Rightarrow> object_type_match cs)"

definition association_requests :: "string \<Rightarrow> jval \<Rightarrow> error + jval list" where
  "association_requests objectType v =
     (case v of
        JArr xs \<Rightarrow> Inr (map (\<lambda>toObjectTypeId.
                      JObj [(''toObjectTypeId'', toObjectTypeId),
                            (''fromObjectTypeId'', JStr objectType),
                            (''name'', JStr (objectType @ ''_to_'' @ js_to_string toObjectTypeId))]) xs)
      | _ \<Rightarrow> Inl TypeError)"

section \<open>Lemmas\<close>

lemma char_class_facts:
  "is_path_char CHR ''/''" "\<not> is_path_char CHR ''.''" "\<not> is_ident_char CHR ''.''"
  "\<not> is_ident_char CHR ''/''" "\<not> is_line_terminator CHR ''.''"
  by code_simp+

lemma match_prefix_skip:
  "(\<And>k. k \<in> set ks \<Longrightarrow> \<not> (k < length t \<and> t ! k = CHR ''/'')) \<Longrightarrow>
   match_prefix t (ks @ ks') = match_prefix t ks'"
  by (induction ks) auto

lemma takeWhile_all: "list_all P xs \<Longrightarrow> \<not> P c \<Longrightarrow> takeWhile P (xs @ c # ys) = xs"
  by (induction xs) auto

lemma takeWhile_stop_le:
  "\<not> P c \<Longrightarrow> length (takeWhile P (xs @ c # ys)) \<le> length xs"
  by (induction xs) auto

lemma match_group_ident:
  assumes "n \<noteq> []" "list_all is_ident_char n"
  shows "match_group (n @ ''.json'') = Some (length n)"
proof -
  have "takeWhile is_ident_char (n @ ''.json'') = n"
    using assms(2) char_class_facts(3) takeWhile_all [of is_ident_char n "CHR ''.''" "''json''"] by simp
  moreover obtain m where "length n = Suc m" using assms(1) by (cases n) auto
  ultimately show ?thesis
    using char_class_facts(5) by (simp add: match_group_def)
qed

lemma ident_json_no_slash:
  assumes "list_all is_ident_char n" "j \<le> length n"
  shows "(n @ ''.json'') ! j \<noteq> CHR ''/''"
proof (cases "j < length n")
  case True
  then have "is_ident_char (n ! j)" using assms(1) by (simp add: list_all_iff)
  then show ?thesis using True char_class_facts(4) by (auto simp: nth_append)
next
  case False
  then show ?thesis using assms(2) by (simp add: nth_append)
qed

lemma rev_upt_split:
  "0 < L \<Longrightarrow> rev [1..<Suc (Suc L + q)] = rev [Suc L..<Suc (Suc L + q)] @ L # rev [1..<L]"
proof -
  assume "0 < L"
  have "[1..<Suc (Suc L + q)] = [1..<Suc L] @ [Suc L..<Suc (Suc L + q)]"
    using upt_add_eq_append [of 1 "Suc L" "Suc q"] by simp
  moreover have "[1..<Suc L] = [1..<L] @ [L]"
    using \<open>0 < L\<close> by (simp add: Suc_le_eq)
  ultimately show ?thesis by simp
qed

lemma match_at_shaped:
  assumes "d \<noteq> []" "list_all is_path_char d" "n \<noteq> []" "list_all is_ident_char n"
  shows "match_at (d @ ''/'' @ n @ ''.json'') = Some (d @ ''/'' @ n @ ''.json'', n)"
proof -
  define t where "t = d @ ''/'' @ n @ ''.json''"
  define L where "L = length d"
  define q where "q = length (takeWhile is_path_char (n @ ''.json''))"
  have q_le: "q \<le> length n"
    unfolding q_def using takeWhile_stop_le [of is_path_char "CHR ''.''" n "''json''"]
      char_class_facts(2) by simp
  have r1: "length (takeWhile is_path_char t) = Suc L + q"
    using assms(2) char_class_facts(1)
    by (simp add: t_def L_def q_def takeWhile_append2 list_all_iff)
  have no_slash: "\<not> (k < length t \<and> t ! k = CHR ''/'')" if "k \<in> set (rev [Suc L..<Suc (Suc L + q)])" for k
  proof -
    from that q_le have k: "L < k" "k - Suc L \<le> length n" by auto
    then have "t ! k = (n @ ''.json'') ! (k - Suc L)"
      by (simp add: t_def L_def nth_append)
    then show ?thesis using ident_json_no_slash [OF assms(4) k(2)] by simp
  qed
  have split: "rev [1..<Suc (Suc L + q)] = rev [Suc L..<Suc (Suc L + q)] @ L # rev [1..<L]"
    using rev_upt_split [of L q] assms(1) by (simp add: L_def)
  have at_L: "L < length t \<and> t ! L = CHR ''/''"
    by (simp add: t_def L_def)
  have drop_L: "drop (Suc L) t = n @ ''.json''"
    by (simp add: t_def L_def)
  have "match_at t = Some (t, n)"
    unfolding match_at_def r1 split
    using no_slash at_L drop_L match_group_ident [OF assms(3,4)]
    by (subst match_prefix_skip) (auto simp: t_def L_def)
  then show ?thesis by (simp add: t_def)
qed

text \<open>No match starts inside a prefix without a slash whose last character is
  no path character: the run of \<open>[/a-zA-Z0-9]\<close> from any of its positions
  stops inside it, before any slash.\<close>

lemma match_at_no_slash:
  assumes "u \<noteq> []" "CHR ''/'' \<notin> set u" "\<not> is_path_char (last u)"
  shows "match_at (u @ r) = None"
proof -
  define L where "L = length (takeWhile is_path_char (u @ r))"
  have e: "u @ r = butlast u @ last u # r" using assms(1) by simp
  have "L \<le> length (butlast u)"
    unfolding L_def e by (rule takeWhile_stop_le [where P = is_path_char, OF assms(3)])
  then have L: "L < length u" using assms(1) by (cases u rule: rev_cases) auto
  have "\<not> (k < length (u @ r) \<and> (u @ r) ! k = CHR ''/'')" if "k \<in> set (rev [1..<Suc L])" for k
  proof -
    from that L have "k < length u" by auto
    then have "(u @ r) ! k \<in> set u" by (simp add: nth_append)
    then show ?thesis using assms(2) by auto
  qed
  then show ?thesis
    unfolding match_at_def L_def [symmetric] using match_prefix_skip [of "rev [1..<Suc L]" "u @ r" "[]"] by simp
qed

lemma object_type_match_skip:
  "(\<And>i. i < length a \<Longrightarrow> match_at (drop i a @ r) = None) \<Longrightarrow> object_type_match (a @ r) = object_type_match r"
proof (induction a)
  case (Cons c a)
  have "match_at (c # a @ r) = None" using Cons.prems [of 0] by simp
  moreover have "object_type_match (a @ r) = object_type_match r"
    using Cons.prems [of "Suc _"] by (intro Cons.IH) auto
  ultimately show ?case by simp
qed simp

text \<open>C16: the regular expression recognises the paths it was written for: a
  non-empty run of \<open>[/a-zA-Z0-9]\<close>, a slash, a non-empty identifier of
  \<open>[a-z_]\<close> and \<open>.json\<close> match as a whole, and the group is the identifier.\<close>

theorem object_type_match_roundtrip:
  assumes "d \<noteq> []" "list_all is_path_char d" "n \<noteq> []" "list_all is_ident_char n"
  shows "object_type_match (d @ ''/'' @ n @ ''.json'') = Some (d @ ''/'' @ n @ ''.json'', n)"
proof -
  obtain c cs where "d @ ''/'' @ n @ ''.json'' = c # cs" using assms(1) by (cases d) auto
  then show ?thesis using match_at_shaped [OF assms] by simp
qed

theorem object_type_match_roundtrip_witness:
  "object_type_match ''schemas/line_item.json'' = Some (''schemas/line_item.json'', ''line_item'')"
proof -
  have "list_all is_path_char ''schemas''" "list_all is_ident_char ''line_item''"
    by code_simp+
  then show ?thesis
    using object_type_match_roundtrip [of "''schemas''" "''line_item''"] by simp
qed

text \<open>C17: the program reads \<open>match[0]\<close> as the file path, which is the
  matched text and not the path the glob returned: whatever precedes the
  last run of \<open>[/a-zA-Z0-9]\<close> before the directory (a leading \<open>.\<close>, a
  directory name up to its dot) is cut off, so the loops read another file
  than the one the glob found. For every non-empty prefix without a slash
  that ends in a character outside \<open>[/a-zA-Z0-9]\<close>, the match is the rest
  of the path.\<close>

theorem object_type_match_prefix_dropped:
  assumes "a \<noteq> []" "CHR ''/'' \<notin> set a" "\<not> is_path_char (last a)"
    and "d \<noteq> []" "list_all is_path_char d" "n \<noteq> []" "list_all is_ident_char n"
  shows "object_type_match (a @ d @ ''/'' @ n @ ''.json'') = Some (d @ ''/'' @ n @ ''.json'', n)"
proof -
  have "match_at (drop i a @ d @ ''/'' @ n @ ''.json'') = None" if "i < length a" for i
  proof (rule match_at_no_slash)
    show "drop i a \<noteq> []" using that by simp
    show "CHR ''/'' \<notin> set (drop i a)" using assms(2) set_drop_subset [of i a] by blast
    show "\<not> is_path_char (last (drop i a))" using assms(3) that by (simp add: last_drop)
  qed
  then have "object_type_match (a @ d @ ''/'' @ n @ ''.json'') = object_type_match (d @ ''/'' @ n @ ''.json'')"
    by (rule object_type_match_skip)
  moreover obtain c cs where "d @ ''/'' @ n @ ''.json'' = c # cs" using assms(4) by (cases d) auto
  ultimately show ?thesis using match_at_shaped [OF assms(4-7)] by simp
qed

theorem object_type_match_prefix_dropped_witness:
  "object_type_match ''my.dir/deal.json'' = Some (''dir/deal.json'', ''deal'')"
proof -
  have "CHR ''/'' \<notin> set ''my.''" "\<not> is_path_char (last ''my.'')" "list_all is_path_char ''dir''"
    "list_all is_ident_char ''deal''"
    by code_simp+
  then show ?thesis
    using object_type_match_prefix_dropped [of "''my.''" "''dir''" "''deal''"] by simp
qed

text \<open>Examples: the two misread paths, and two paths that do not match at all
  (\<open>null\<close>, on which the program's \<open>match[0]\<close> throws): a file name with a
  digit, and a file at the top level.\<close>

lemma object_type_match_paths:
  "object_type_match ''./schemas/deal.json'' = Some (''/schemas/deal.json'', ''deal'')
   \<and> object_type_match ''my.dir/deal.json'' = Some (''dir/deal.json'', ''deal'')
   \<and> object_type_match ''schemas/deal2.json'' = None
   \<and> object_type_match ''deal.json'' = None"
  by code_simp

end
