(* ===== verification/Orchestrator.thy ===== *)
theory Orchestrator
  imports Reconcile Remote_Client Schema_Loader
begin

text \<open>
  The three commands of cli.ts and the request phase of \<open>updateSchema\<close>. Each
  command takes the server, the file system \<open>fs\<close> (path to parsed JSON or a
  read/parse error) and the paths the glob returned, and runs from a state
  \<open>'w rt\<close>. An exception that escapes a command is its \<open>Inl\<close> result:
  commander's async action rejects and Node terminates the process.
  \<^item> \<open>update_schema\<close>: \<open>updateSchema\<close> (lines 148--208), the plan of
    \<open>Reconcile\<close> followed by the DELETE, POST and PATCH loops
    (\<open>delete_props\<close>, \<open>create_props\<close>, \<open>update_props\<close>); only PATCH
    failures are caught.
  \<^item> \<open>update_loop\<close>, \<open>update_schemas\<close>: \<open>updateSchemas\<close> (lines 210--223); the
    index entry is replaced by the schema \<open>updateSchema\<close> left behind, which
    has lost its \<open>properties\<close>.
  \<^item> \<open>create_loop\<close>, \<open>association_loop\<close>, \<open>create_schemas\<close>:
    \<open>createSchemas\<close> (lines 74--118), two phases: every schema, then every
    association, resolved through the index with \<open>lodash_get\<close>.
  \<^item> \<open>delete_loop\<close>, \<open>delete_schemas\<close>: \<open>deleteSchemas\<close> (lines 120--131).
  A path that does not match \<open>objectTypeRegex\<close> makes the destructuring of
  \<open>null\<close> throw a \<open>TypeError\<close> when the loop reaches it.
\<close>

section \<open>updateSchema\<close>

definition prop_log :: "string \<Rightarrow> jval \<Rightarrow> jval \<Rightarrow> ('w, unit) prog" where
  "prop_log verb p currentSchema =
     bindS (liftE (js_get p ''name'')) (\<lambda>pn.
     bindS (liftE (js_get currentSchema ''name'')) (\<lambda>sn.
       console_log (verb @ '' property '' @ js_to_string pn @ '' on '' @ js_to_string sn)))"

definition named_path :: "jval \<Rightarrow> jval \<Rightarrow> error + string" where
  "named_path currentSchema p =
     bindE (js_get currentSchema ''objectTypeId'') (\<lambda>i. bindE (js_get p ''name'') (\<lambda>pn.
       Inr (''/properties/v2/'' @ js_to_string i @ ''/properties/named/'' @ js_to_string pn)))"

fun delete_props :: "'w server \<Rightarrow> jval \<Rightarrow> jval list \<Rightarrow> ('w, unit) prog" where
  "delete_props srv cs [] = returnS ()"
| "delete_props srv cs (p # ps) =
     bindS (prop_log ''Deleting'' p cs) (\<lambda>_.
     bindS (liftE (named_path cs p)) (\<lambda>path.
     bindS (http srv (req DELETE path None)) (\<lambda>_.
       delete_props srv cs ps)))"

fun create_props :: "'w server \<Rightarrow> jval \<Rightarrow> jval list \<Rightarrow> ('w, unit) prog" where
  "create_props srv cs [] = returnS ()"
| "create_props srv cs (p # ps) =
     bindS (prop_log ''Creating'' p cs) (\<lambda>_.
     bindS (liftE (js_get cs ''objectTypeId'')) (\<lambda>i.
     bindS (http srv (req POST (''/properties/v2/'' @ js_to_string i @ ''/properties'') (Some p)))
       (\<lambda>_. create_props srv cs ps)))"

fun update_props :: "'w server \<Rightarrow> jval \<Rightarrow> jval list \<Rightarrow> ('w, unit) prog" where
  "update_props srv cs [] = returnS ()"
| "update_props srv cs (p # ps) =
     bindS (prop_log ''Updating'' p cs) (\<lambda>_.
     bindS (liftE (named_path cs p)) (\<lambda>path.
     bindS (catchS (http srv (req PATCH path (Some p)))
              (\<lambda>e. bindS (console_log_error e) (\<lambda>_. returnS JUndef))) (\<lambda>_.
       update_props srv cs ps)))"

definition update_schema :: "'w server \<Rightarrow> jval \<Rightarrow> jval \<Rightarrow> ('w, jval) prog" where
  "update_schema srv updatedSchema currentSchema =
     bindS (liftE (update_plan updatedSchema currentSchema)) (\<lambda>(d, cs).
     bindS (delete_props srv cs (to_delete d)) (\<lambda>_.
     bindS (create_props srv cs (to_create d)) (\<lambda>_.
     bindS (update_props srv cs (to_update d)) (\<lambda>_.
       returnS cs))))"

section \<open>updateSchemas\<close>

definition index_get :: "index \<Rightarrow> string \<Rightarrow> jval" where
  "index_get meta k = (case meta k of None \<Rightarrow> JUndef | Some v \<Rightarrow> v)"

fun update_loop :: "'w server \<Rightarrow> (string \<Rightarrow> error + jval) \<Rightarrow> (string \<times> string) option list
    \<Rightarrow> index \<Rightarrow> ('w, index) prog" where
  "update_loop srv fs [] meta = returnS meta"
| "update_loop srv fs (None # ms) meta = throwS TypeError"
| "update_loop srv fs (Some (filePath, objectType) # ms) meta =
     bindS (liftE (fs filePath)) (\<lambda>objectSchema.
       if \<not> js_truthy (index_get meta objectType) then
         bindS (console_log (''Object Type '' @ objectType @ '' does not exist to be updated.''))
           (\<lambda>_. update_loop srv fs ms meta)
       else
         bindS (update_schema srv objectSchema (index_get meta objectType)) (\<lambda>cs.
           update_loop srv fs ms (meta(objectType \<mapsto> cs))))"

definition update_schemas :: "'w server \<Rightarrow> (string \<Rightarrow> error + jval) \<Rightarrow> string list \<Rightarrow> ('w, unit) prog" where
  "update_schemas srv fs files =
     bindS (get_existing_schemas srv) (\<lambda>meta.
     bindS (update_loop srv fs (map object_type_match files) meta) (\<lambda>_. returnS ()))"

section \<open>createSchemas\<close>

text \<open>
  lodash \<open>get(meta, path, default)\<close>: the path string split at dots (the
  bracket syntax of lodash paths is not modelled), the walk stopping at
  \<open>null\<close>/\<open>undefined\<close>, the default taken when the result is \<open>undefined\<close>.
\<close>

fun split_dots :: "string \<Rightarrow> string list" where
  "split_dots [] = [[]]"
| "split_dots (c # cs) =
     (if c = CHR ''.'' then [] # split_dots cs
      else (case split_dots cs of k # ks \<Rightarrow> (c # k) # ks | [] \<Rightarrow> [[c]]))"

fun lodash_walk :: "jval \<Rightarrow> string list \<Rightarrow> jval" where
  "lodash_walk v [] = v"
| "lodash_walk v (k # ks) =
     (if v = JUndef \<or> v = JNull then JUndef else lodash_walk (lodash_property v k) ks)"

definition lodash_get :: "index \<Rightarrow> string \<Rightarrow> jval \<Rightarrow> jval" where
  "lodash_get meta path def =
     (let r = (case split_dots path of
                 [] \<Rightarrow> JUndef
               | k # ks \<Rightarrow> (case meta k of None \<Rightarrow> JUndef | Some v \<Rightarrow> lodash_walk v ks))
      in if r = JUndef then def else r)"

definition resolve_id :: "index \<Rightarrow> jval \<Rightarrow> jval" where
  "resolve_id meta x = lodash_get meta (js_to_string x @ ''.objectTypeId'') x"

fun create_loop :: "'w server \<Rightarrow> (string \<Rightarrow> error + jval) \<Rightarrow> (string \<times> string) option list
    \<Rightarrow> index \<Rightarrow> jval list \<Rightarrow> ('w, index \<times> jval list) prog" where
  "create_loop srv fs [] meta assocs = returnS (meta, assocs)"
| "create_loop srv fs (None # ms) meta assocs = throwS TypeError"
| "create_loop srv fs (Some (filePath, objectType) # ms) meta assocs =
     bindS (liftE (fs filePath)) (\<lambda>objectSchema.
     bindS (liftE (pick objectSchema ''associations'' (JArr []))) (\<lambda>(targets, objectSchema').
     bindS (liftE (association_requests objectType targets)) (\<lambda>new.
     bindS (create_schema srv objectSchema') (\<lambda>objectTypeId.
       if js_truthy objectTypeId then
         bindS (console_log (''Created '' @ objectType)) (\<lambda>_.
           create_loop srv fs ms (meta(objectType \<mapsto> JObj [(''objectTypeId'', objectTypeId)]))
             (assocs @ new))
       else create_loop srv fs ms meta (assocs @ new)))))"

fun association_loop :: "'w server \<Rightarrow> index \<Rightarrow> jval list \<Rightarrow> ('w, unit) prog" where
  "association_loop srv meta [] = returnS ()"
| "association_loop srv meta (a # as) =
     bindS (liftE (js_get a ''name'')) (\<lambda>name.
     bindS (liftE (js_get a ''fromObjectTypeId'')) (\<lambda>fromId.
     bindS (liftE (js_get a ''toObjectTypeId'')) (\<lambda>toId.
     bindS (create_association srv
              (JObj [(''name'', name), (''fromObjectTypeId'', resolve_id meta fromId),
                     (''toObjectTypeId'', resolve_id meta toId)])) (\<lambda>_.
       association_loop srv meta as))))"

definition create_schemas :: "'w server \<Rightarrow> (string \<Rightarrow> error + jval) \<Rightarrow> string list \<Rightarrow> ('w, unit) prog" where
  "create_schemas srv fs files =
     bindS (get_existing_schemas srv) (\<lambda>meta.
     bindS (create_loop srv fs (map object_type_match files) meta []) (\<lambda>(meta', assocs).
       association_loop srv meta' assocs))"

section \<open>deleteSchemas\<close>

fun delete_loop :: "'w server \<Rightarrow> index \<Rightarrow> (string \<times> string) option list \<Rightarrow> ('w, unit) prog" where
  "delete_loop srv meta [] = returnS ()"
| "delete_loop srv meta (None # ms) = throwS TypeError"
| "delete_loop srv meta (Some (filePath, objectType) # ms) =
     bindS (liftE (js_get (index_get meta objectType) ''objectTypeId'')) (\<lambda>objectTypeId.
     bindS (delete_schema srv objectTypeId) (\<lambda>success.
     bindS (if success then console_log (''Deleted '' @ objectType) else returnS ()) (\<lambda>_.
       delete_loop srv meta ms)))"

definition delete_schemas :: "'w server \<Rightarrow> string list \<Rightarrow> ('w, unit) prog" where
  "delete_schemas srv files =
     bindS (get_existing_schemas srv) (\<lambda>meta.
       delete_loop srv meta (map object_type_match files))"

section \<open>The requests of updateSchema\<close>

text \<open>
  The requests \<open>updateSchema\<close> means to send for a diff, in order: one
  DELETE per property to delete, one POST per property to create, one PATCH
  per property to update. A request whose path cannot be built is never sent
  (the path expression throws first), so its placeholder path is irrelevant.
\<close>

definition delete_req :: "jval \<Rightarrow> jval \<Rightarrow> request" where
  "delete_req cs p = req DELETE (case named_path cs p of Inr path \<Rightarrow> path | Inl e \<Rightarrow> []) None"

definition create_req :: "jval \<Rightarrow> jval \<Rightarrow> request" where
  "create_req cs p =
     req POST (case js_get cs ''objectTypeId'' of
                 Inr i \<Rightarrow> ''/properties/v2/'' @ js_to_string i @ ''/properties'' | Inl e \<Rightarrow> [])
       (Some p)"

definition update_req :: "jval \<Rightarrow> jval \<Rightarrow> request" where
  "update_req cs p = req PATCH (case named_path cs p of Inr path \<Rightarrow> path | Inl e \<Rightarrow> []) (Some p)"

definition plan_requests :: "jval \<Rightarrow> diff \<Rightarrow> request list" where
  "plan_requests cs d =
     map (delete_req cs) (to_delete d) @ map (create_req cs) (to_create d) @ map (update_req cs) (to_update d)"

section \<open>Example inputs\<close>

text \<open>
  A server that answers the index fetch with no schemas, gives each created
  schema the next identifier \<open>2-n\<close> and echoes every other request body; two
  schema files, \<open>company\<close> associated to \<open>deal\<close>; and a schema \<open>deal_x\<close> whose
  local and remote properties are those of the reconciliation example.
\<close>

definition ex_id_server :: "nat server" where
  "ex_id_server rq n =
     (if req_method rq = GET then (Inr (JObj [(''results'', JArr [])]), n)
      else if req_method rq = POST \<and> req_path rq = ''/crm/v3/schemas'' then
        (Inr (JObj [(''objectTypeId'', JStr (''2-'' @ nat_str n))]), Suc n)
      else (Inr (case req_body rq of Some b \<Rightarrow> b | None \<Rightarrow> JNull), n))"

definition ex_upd :: jval where
  "ex_upd = JObj [(''name'', JStr ''deal_x''), (''properties'', JArr ex_local)]"

definition ex_cur :: jval where
  "ex_cur = JObj [(''name'', JStr ''deal_x''), (''objectTypeId'', JStr ''2-7''),
     (''properties'', JArr ex_remote)]"

definition ex_cs :: jval where
  "ex_cs = JObj [(''name'', JStr ''deal_x''), (''objectTypeId'', JStr ''2-7'')]"

definition ex_fs :: "string \<Rightarrow> error + jval" where
  "ex_fs p =
     (if p = ''schemas/company.json'' then
        Inr (JObj [(''name'', JStr ''company''), (''associations'', JArr [JStr ''deal''])])
      else if p = ''schemas/deal.json'' then Inr (JObj [(''name'', JStr ''deal'')])
      else if p = ''schemas/deal_x.json'' then Inr ex_upd
      else Inl FsError)"

definition ex_reject_server :: "nat server" where
  "ex_reject_server rq n =
     (if req_method rq = GET then (Inr (JObj [(''results'', JArr [ex_cur])]), n)
      else (Inl (HttpStatus 500), n))"

definition ex_down_server :: "nat server" where
  "ex_down_server rq n = (Inl NetworkError, n)"

section \<open>Lemmas\<close>

lemma prop_log_silent: "sends_exactly (prop_log verb p cs) []"
  unfolding prop_log_def
  by (intro sends_exactly_bind_silent sends_exactly_basic)

lemma delete_props_sends: "sends_prefix (delete_props srv cs ps) (map (delete_req cs) ps)"
proof (induction ps)
  case Nil
  then show ?case by (simp add: sends_exactly_prefix sends_exactly_basic)
next
  case (Cons p ps)
  have "sends_prefix (bindS (liftE (named_path cs p)) (\<lambda>path.
      bindS (http srv (req DELETE path None)) (\<lambda>_. delete_props srv cs ps)))
      (delete_req cs p # map (delete_req cs) ps)"
  proof (cases "named_path cs p")
    case (Inl e)
    then show ?thesis by (simp add: sends_prefix_throw)
  next
    case (Inr path)
    then have "delete_req cs p = req DELETE path None" by (simp add: delete_req_def)
    with Inr show ?thesis
      using sends_prefix_bind_exactly [OF sends_exactly_basic(1) [of srv "req DELETE path None"] Cons.IH]
      by simp
  qed
  then show ?case
    using sends_prefix_bind_exactly [OF prop_log_silent] by simp
qed

lemma create_props_sends: "sends_prefix (create_props srv cs ps) (map (create_req cs) ps)"
proof (induction ps)
  case Nil
  then show ?case by (simp add: sends_exactly_prefix sends_exactly_basic)
next
  case (Cons p ps)
  have "sends_prefix (bindS (liftE (js_get cs ''objectTypeId'')) (\<lambda>i.
      bindS (http srv (req POST (''/properties/v2/'' @ js_to_string i @ ''/properties'') (Some p)))
        (\<lambda>_. create_props srv cs ps)))
      (create_req cs p # map (create_req cs) ps)"
  proof (cases "js_get cs ''objectTypeId''")
    case (Inl e)
    then show ?thesis by (simp add: sends_prefix_throw)
  next
    case (Inr i)
    then have "create_req cs p = req POST (''/properties/v2/'' @ js_to_string i @ ''/properties'') (Some p)"
      by (simp add: create_req_def)
    with Inr show ?thesis
      using sends_prefix_bind_exactly [OF sends_exactly_basic(1)
          [of srv "req POST (''/properties/v2/'' @ js_to_string i @ ''/properties'') (Some p)"] Cons.IH]
      by simp
  qed
  then show ?case
    using sends_prefix_bind_exactly [OF prop_log_silent] by simp
qed

lemma patch_silent: "sends_exactly (catchS (http srv rq) (\<lambda>e. bindS (console_log_error e) (\<lambda>_. returnS JUndef))) [rq]"
  by (intro sends_exactly_catch_silent sends_exactly_bind_silent sends_exactly_basic)

lemma update_props_sends: "sends_prefix (update_props srv cs ps) (map (update_req cs) ps)"
proof (induction ps)
  case Nil
  then show ?case by (simp add: sends_exactly_prefix sends_exactly_basic)
next
  case (Cons p ps)
  have "sends_prefix (bindS (liftE (named_path cs p)) (\<lambda>path.
      bindS (catchS (http srv (req PATCH path (Some p)))
              (\<lambda>e. bindS (console_log_error e) (\<lambda>_. returnS JUndef))) (\<lambda>_. update_props srv cs ps)))
      (update_req cs p # map (update_req cs) ps)"
  proof (cases "named_path cs p")
    case (Inl e)
    then show ?thesis by (simp add: sends_prefix_throw)
  next
    case (Inr path)
    then have "update_req cs p = req PATCH path (Some p)" by (simp add: update_req_def)
    with Inr show ?thesis
      using sends_prefix_bind_exactly [OF patch_silent [of srv "req PATCH path (Some p)"] Cons.IH]
      by simp
  qed
  then show ?case
    using sends_prefix_bind_exactly [OF prop_log_silent] by simp
qed

lemma create_loop_sends: "sends_only schema_request (create_loop srv fs ms meta assocs)"
proof (induction ms arbitrary: meta assocs)
  case Nil
  then show ?case by (simp add: sends_only_basic)
next
  case (Cons m ms)
  show ?case
  proof (cases m)
    case None
    then show ?thesis by (simp add: sends_only_basic)
  next
    case (Some fo)
    then show ?thesis
      unfolding split_def
      by (cases fo) (simp only: create_loop.simps split_def, intro sends_only_intros create_schema_sends Cons.IH)
  qed
qed

lemma association_loop_sends: "sends_only association_request (association_loop srv meta as)"
  by (induction as) (simp_all add: sends_only_intros create_association_sends)

lemma split_dots_no_dot: "CHR ''.'' \<notin> set y \<Longrightarrow> split_dots y = [y]"
  by (induction y) auto

lemma split_dots_append:
  "CHR ''.'' \<notin> set x \<Longrightarrow> split_dots (x @ CHR ''.'' # y) = x # split_dots y"
  by (induction x) auto

lemma lodash_walk_one: "lodash_walk v [k] = lodash_property v k"
  by (auto simp: lodash_property_def)

lemma ex_update_plan: "update_plan ex_upd ex_cur = Inr (ex_diff, ex_cs)"
  by code_simp

lemma pick_associations:
  "js_truthy (obj_lookup fs ''associations'') \<longrightarrow> is_array (obj_lookup fs ''associations'') \<Longrightarrow>
   \<exists>xs. pick (JObj fs) ''associations'' (JArr []) = Inr (JArr xs, js_delete (JObj fs) ''associations'')"
  by (cases "obj_lookup fs ''associations''") (auto simp: pick_def)

text \<open>One file of the schema loop: it sends the file's POST (and perhaps logs), and the
  loop goes on with the rest.\<close>

lemma create_loop_Cons:
  assumes fp: "fs p = Inr (JObj fs')"
    and a: "js_truthy (obj_lookup fs' ''associations'') \<longrightarrow> is_array (obj_lookup fs' ''associations'')"
  shows "\<exists>s1 t1 meta' as'. trace s1 = trace s @ t1
    \<and> sent t1 = [req POST ''/crm/v3/schemas'' (Some (js_delete (JObj fs') ''associations''))]
    \<and> create_loop srv fs (Some (p, ot) # ms) meta as s = create_loop srv fs ms meta' as' s1
    \<and> set as' \<subseteq> set as \<union> {a. \<exists>g. a = JObj g}"
proof -
  obtain xs where pk: "pick (JObj fs') ''associations'' (JArr []) =
      Inr (JArr xs, js_delete (JObj fs') ''associations'')"
    using pick_associations [OF a] by blast
  obtain r s1 t1 where cs: "create_schema srv (js_delete (JObj fs') ''associations'') s = (Inr r, s1)"
    and t1: "trace s1 = trace s @ t1"
      "sent t1 = [req POST ''/crm/v3/schemas'' (Some (js_delete (JObj fs') ''associations''))]"
    using create_schema_run [of srv "filter (\<lambda>f. fst f \<noteq> ''associations'') fs'" s] by auto
  show ?thesis
  proof (cases "js_truthy r")
    case True
    then show ?thesis
      using fp pk cs t1
      by (intro exI [of _ "s1\<lparr>trace := trace s1 @ [Logged (''Created '' @ ot)]\<rparr>"]
          exI [of _ "t1 @ [Logged (''Created '' @ ot)]"])
        (simp add: association_requests_def eff_simps, fastforce)
  next
    case False
    then show ?thesis
      using fp pk cs t1 by (intro exI [of _ s1] exI [of _ t1]) (simp add: association_requests_def eff_simps, fastforce)
  qed
qed

lemma named_path_Inr:
  "named_path cs p = Inr path \<Longrightarrow>
   \<exists>i pn sn. js_get cs ''objectTypeId'' = Inr i \<and> js_get p ''name'' = Inr pn \<and> js_get cs ''name'' = Inr sn"
  by (cases cs) (auto simp: named_path_def)

lemma create_loop_objects:
  assumes "\<forall>(p, ot) \<in> set ms. \<exists>fs'. fs p = Inr (JObj fs') \<and>
     (js_truthy (obj_lookup fs' ''associations'') \<longrightarrow> is_array (obj_lookup fs' ''associations''))"
    and "\<forall>a\<in>set as. \<exists>g. a = JObj g"
  shows "\<exists>meta' as' s'. create_loop srv fs (map Some ms) meta as s = (Inr (meta', as'), s')
    \<and> (\<forall>a\<in>set as'. \<exists>g. a = JObj g)"
  using assms
proof (induction ms arbitrary: meta as s)
  case Nil
  then show ?case by (simp add: eff_simps)
next
  case (Cons m ms)
  obtain p ot where m: "m = (p, ot)" by fastforce
  from Cons.prems m obtain fs' where fp: "fs p = Inr (JObj fs')"
    and a: "js_truthy (obj_lookup fs' ''associations'') \<longrightarrow> is_array (obj_lookup fs' ''associations'')"
    by auto
  from create_loop_Cons [where fs = fs and p = p and srv = srv and ot = ot and ms = "map Some ms"
      and meta = meta and as = as and s = s, OF fp a]
  obtain s1 meta' as' where run: "create_loop srv fs (Some (p, ot) # map Some ms) meta as s =
      create_loop srv fs (map Some ms) meta' as' s1" and sub: "set as' \<subseteq> set as \<union> {a. \<exists>g. a = JObj g}"
    by blast
  have "\<forall>a\<in>set as'. \<exists>g. a = JObj g" using sub Cons.prems(2) by blast
  with Cons.IH [where meta = meta' and as = as' and s = s1] Cons.prems(1)
  have "\<exists>meta'' as'' s'. create_loop srv fs (map Some ms) meta' as' s1 = (Inr (meta'', as''), s')
      \<and> (\<forall>a\<in>set as''. \<exists>g. a = JObj g)"
    by simp
  then show ?case unfolding m list.map(2) run .
qed

lemma create_association_run: "\<exists>r s'. create_association srv (JObj g) s = (Inr r, s')"
proof -
  obtain r w where "srv (req POST (''/crm/v3/schemas/'' @ js_to_string (obj_lookup g ''fromObjectTypeId'')
      @ ''/associations'') (Some (JObj g))) (world s) = (r, w)"
    by fastforce
  then show ?thesis by (cases r) (auto simp: create_association_def eff_simps http_Pair)
qed

lemma create_association_trace:
  "\<exists>r s' t. create_association srv (JObj g) s = (Inr r, s') \<and> trace s' = trace s @ t \<and>
     sent t = [req POST (''/crm/v3/schemas/'' @ js_to_string (obj_lookup g ''fromObjectTypeId'')
                 @ ''/associations'') (Some (JObj g))]"
proof -
  obtain r w where "srv (req POST (''/crm/v3/schemas/'' @ js_to_string (obj_lookup g ''fromObjectTypeId'')
      @ ''/associations'') (Some (JObj g))) (world s) = (r, w)"
    by fastforce
  then show ?thesis by (cases r) (auto simp: create_association_def eff_simps http_Pair)
qed

lemma association_loop_run:
  "\<forall>a\<in>set as. \<exists>g. a = JObj g \<Longrightarrow> \<exists>s'. association_loop srv meta as s = (Inr (), s')"
proof (induction as arbitrary: s)
  case Nil
  then show ?case by (simp add: eff_simps)
next
  case (Cons a as)
  then obtain g where a: "a = JObj g" by auto
  let ?b = "JObj [(''name'', obj_lookup g ''name''),
      (''fromObjectTypeId'', resolve_id meta (obj_lookup g ''fromObjectTypeId'')),
      (''toObjectTypeId'', resolve_id meta (obj_lookup g ''toObjectTypeId''))]"
  obtain r s1 where "create_association srv ?b s = (Inr r, s1)"
    using create_association_run by blast
  then show ?case using Cons by (simp add: a eff_simps)
qed

text \<open>Once the plan is computed, \<open>updateSchema\<close> sends a prefix of its requests.\<close>

lemma update_schema_sends_plan:
  assumes "update_plan u c = Inr (d, cs)"
  shows "sends_prefix (update_schema srv u c) (plan_requests cs d)"
proof -
  have "sends_prefix (bindS (delete_props srv cs (to_delete d)) (\<lambda>_.
      bindS (create_props srv cs (to_create d)) (\<lambda>_.
      bindS (update_props srv cs (to_update d)) (\<lambda>_. returnS cs))))
      (map (delete_req cs) (to_delete d) @ map (create_req cs) (to_create d)
       @ map (update_req cs) (to_update d) @ [])"
    by (intro sends_prefix_bind delete_props_sends create_props_sends update_props_sends
        sends_exactly_prefix sends_exactly_basic)
  then show ?thesis
    using assms by (simp add: update_schema_def plan_requests_def)
qed

text \<open>One file of the schema loop, run to a normal return.\<close>

lemma create_loop_Some_Inr:
  assumes "create_loop srv fs (Some (p, ot) # ms) meta as s = (Inr (meta', as'), s')"
  shows "\<exists>r meta1 as1 s1. (meta1 = meta \<or> (js_truthy r \<and> meta1 = meta(ot \<mapsto> JObj [(''objectTypeId'', r)])))
    \<and> create_loop srv fs ms meta1 as1 s1 = (Inr (meta', as'), s')"
  using assms
  by (auto simp: bindS_eq_Inr liftE_eq_Inr split_def split: if_splits)

text \<open>The same step, keeping the call of \<open>createSchema\<close> whose answer decides
  the index entry.\<close>

lemma create_loop_Some_Inr_schema:
  assumes "create_loop srv fs (Some (p, ot) # ms) meta as s = (Inr (meta', as'), s')"
  shows "\<exists>sch s0 r s1 meta1 as1 s2. create_schema srv sch s0 = (Inr r, s1) \<and>
    meta1 = (if js_truthy r then meta(ot \<mapsto> JObj [(''objectTypeId'', r)]) else meta) \<and>
    create_loop srv fs ms meta1 as1 s2 = (Inr (meta', as'), s')"
  using assms
  by (auto simp: bindS_eq_Inr liftE_eq_Inr split_def split: if_splits) blast+

lemma create_schema_rejected:
  assumes "isl (fst (srv (req POST ''/crm/v3/schemas'' (Some sch)) (world s)))"
    and "create_schema srv sch s = (Inr r, s')"
  shows "r = JNull"
proof -
  obtain e w where "srv (req POST ''/crm/v3/schemas'' (Some sch)) (world s) = (Inl e, w)"
    using assms(1) by (cases "srv (req POST ''/crm/v3/schemas'' (Some sch)) (world s)") (auto simp: isl_def)
  then show ?thesis
    using assms(2) by (auto simp: create_schema_def eff_simps http_Pair bindS_eq_Inr liftE_eq_Inr
        split: sum.splits prod.splits)
qed

lemma split_dots_objectTypeId:
  "CHR ''.'' \<notin> set x \<Longrightarrow> split_dots (x @ ''.objectTypeId'') = [x, ''objectTypeId'']"
  using split_dots_append [of x "''objectTypeId''"] by (simp add: split_dots_no_dot)

text \<open>Files that read to objects are each processed with one POST, and the loop
  goes on with the rest.\<close>

lemma create_loop_prefix:
  assumes "\<forall>(p, ot) \<in> set ms. \<exists>fs'. fs p = Inr (JObj fs') \<and>
     (js_truthy (obj_lookup fs' ''associations'') \<longrightarrow> is_array (obj_lookup fs' ''associations''))"
  shows "\<exists>meta' as' s' t. create_loop srv fs (map Some ms @ rest) meta as s = create_loop srv fs rest meta' as' s'
    \<and> trace s' = trace s @ t
    \<and> sent t = map (\<lambda>(p, ot). req POST ''/crm/v3/schemas'' (Some (js_delete (projr (fs p)) ''associations''))) ms"
  using assms
proof (induction ms arbitrary: meta as s)
  case Nil
  show ?case by (intro exI [of _ meta] exI [of _ as] exI [of _ s] exI [of _ "[]"]) simp
next
  case (Cons m ms)
  obtain p ot where m: "m = (p, ot)" by fastforce
  from Cons.prems m obtain fs' where fp: "fs p = Inr (JObj fs')"
    and a: "js_truthy (obj_lookup fs' ''associations'') \<longrightarrow> is_array (obj_lookup fs' ''associations'')"
    by auto
  from create_loop_Cons [where fs = fs and p = p and srv = srv and ot = ot and ms = "map Some ms @ rest"
      and meta = meta and as = as and s = s, OF fp a]
  obtain s1 t1 meta1 as1 where t1: "trace s1 = trace s @ t1"
    "sent t1 = [req POST ''/crm/v3/schemas'' (Some (js_delete (JObj fs') ''associations''))]"
    and run: "create_loop srv fs (Some (p, ot) # map Some ms @ rest) meta as s =
      create_loop srv fs (map Some ms @ rest) meta1 as1 s1"
    by blast
  from Cons.IH [of meta1 as1 s1] Cons.prems obtain meta' as' s' t where
    eq: "create_loop srv fs (map Some ms @ rest) meta1 as1 s1 = create_loop srv fs rest meta' as' s'"
    and tr: "trace s' = trace s1 @ t"
    and st: "sent t = map (\<lambda>(p, ot). req POST ''/crm/v3/schemas''
        (Some (js_delete (projr (fs p)) ''associations''))) ms"
    by auto
  have "sent (t1 @ t) = map (\<lambda>(p, ot). req POST ''/crm/v3/schemas''
        (Some (js_delete (projr (fs p)) ''associations''))) (m # ms)"
    using t1(2) st by (simp add: m fp)
  then show ?case
    using run eq tr t1(1) by (intro exI [of _ meta'] exI [of _ as'] exI [of _ s'] exI [of _ "t1 @ t"]) (simp add: m)
qed

section \<open>Properties\<close>

text \<open>
  C14. The requests \<open>updateSchema\<close> sends are, in order, a prefix of its plan:
  every DELETE, then every POST, then every PATCH (spec section 4.5), whatever
  the server answers; when it returns normally it has sent the whole plan. A
  failed DELETE or POST aborts the rest, a failed PATCH does not.
\<close>

theorem update_schema_request_order:
  assumes "update_plan u c = Inr (d, cs)"
  shows "\<exists>t. trace (snd (update_schema srv u c s)) = trace s @ t
    \<and> prefix (sent t) (plan_requests cs d)
    \<and> (\<not> isl (fst (update_schema srv u c s)) \<longrightarrow> sent t = plan_requests cs d)"
  using update_schema_sends_plan [OF assms, of srv] unfolding sends_prefix_def by (metis prod.collapse)

theorem update_schema_request_order_witness:
  "update_plan ex_upd ex_cur = Inr (ex_diff, ex_cs)
   \<and> (\<exists>t. trace (snd (update_schema ex_id_server ex_upd ex_cur \<lparr>world = 0, trace = []\<rparr>))
          = trace \<lparr>world = 0::nat, trace = []\<rparr> @ t
      \<and> prefix (sent t) (plan_requests ex_cs ex_diff)
      \<and> (\<not> isl (fst (update_schema ex_id_server ex_upd ex_cur \<lparr>world = 0, trace = []\<rparr>))
           \<longrightarrow> sent t = plan_requests ex_cs ex_diff))"
  using update_schema_request_order [OF ex_update_plan, of ex_id_server "\<lparr>world = 0, trace = []\<rparr>"]
  by (simp only: ex_update_plan simp_thms)

text \<open>
  C15. \<open>createSchemas\<close> runs in two phases: every request to the schema
  registry (the index fetch and each schema creation) precedes every
  association request, whatever the server answers and wherever the run stops.
\<close>

theorem create_schemas_two_phase:
  "\<exists>t1 t2. trace (snd (create_schemas srv fs files s)) = trace s @ t1 @ t2
    \<and> (\<forall>rq\<in>set (sent t1). schema_request rq) \<and> (\<forall>rq\<in>set (sent t2). association_request rq)"
proof -
  have "sends_then schema_request association_request (create_schemas srv fs files)"
    unfolding create_schemas_def split_def
    by (intro sends_then_prepend sends_then_bind get_existing_schemas_sends create_loop_sends
        association_loop_sends)
  then show ?thesis unfolding sends_then_def by (metis prod.collapse)
qed

theorem create_schemas_two_phase_witness:
  "\<exists>t1 t2. trace (snd (create_schemas ex_id_server ex_fs [''schemas/company.json'', ''schemas/deal.json'']
        \<lparr>world = 0, trace = []\<rparr>)) = trace \<lparr>world = 0::nat, trace = []\<rparr> @ t1 @ t2
    \<and> (\<forall>rq\<in>set (sent t1). schema_request rq) \<and> (\<forall>rq\<in>set (sent t2). association_request rq)"
  by (rule create_schemas_two_phase)

text \<open>
  C18. An association target without dots resolves through the index: to the
  \<open>objectTypeId\<close> of the schema of that name when the index holds one with
  such a field, and to the target itself otherwise (lines 108--110).
\<close>

theorem resolve_id_index:
  assumes "CHR ''.'' \<notin> set x"
  shows "resolve_id meta (JStr x) =
    (case meta x of
       None \<Rightarrow> JStr x
     | Some v \<Rightarrow> (if lodash_property v ''objectTypeId'' = JUndef then JStr x
                  else lodash_property v ''objectTypeId''))"
proof -
  show ?thesis
    using split_dots_objectTypeId [OF assms]
    by (simp add: resolve_id_def lodash_get_def lodash_walk_one split: option.splits)
qed

theorem resolve_id_index_witness:
  "resolve_id [''deal'' \<mapsto> JObj [(''objectTypeId'', JStr ''2-1'')]] (JStr ''deal'') = JStr ''2-1''"
  using resolve_id_index [of "''deal''" "[''deal'' \<mapsto> JObj [(''objectTypeId'', JStr ''2-1'')]]"]
  by (simp add: lodash_property_def obj_lookup_def)

text \<open>
  C19. The association loop of \<open>createSchemas\<close> (lines 103--117) returns
  normally whatever the server answers, and posts every association once, in
  order, with both ends resolved through the index the schema loop left:
  \<open>get(meta, `${id}.objectTypeId`, id)\<close> for the source, which is also the
  path of the request, and for the target. So an association to a schema
  created earlier in the same run carries that schema's new identifier
  (the index invariant C32 says which entries the schema loop writes).
\<close>

theorem association_loop_resolves:
  "fst (association_loop srv meta (map JObj gs) s) = Inr ()
   \<and> (\<exists>t. trace (snd (association_loop srv meta (map JObj gs) s)) = trace s @ t
        \<and> sent t = map (\<lambda>g. req POST
              (''/crm/v3/schemas/'' @ js_to_string (resolve_id meta (obj_lookup g ''fromObjectTypeId''))
                 @ ''/associations'')
              (Some (JObj [(''name'', obj_lookup g ''name''),
                           (''fromObjectTypeId'', resolve_id meta (obj_lookup g ''fromObjectTypeId'')),
                           (''toObjectTypeId'', resolve_id meta (obj_lookup g ''toObjectTypeId''))]))) gs)"
proof (induction gs arbitrary: s)
  case Nil
  then show ?case by (simp add: eff_simps)
next
  case (Cons g gs)
  let ?b = "[(''name'', obj_lookup g ''name''),
      (''fromObjectTypeId'', resolve_id meta (obj_lookup g ''fromObjectTypeId'')),
      (''toObjectTypeId'', resolve_id meta (obj_lookup g ''toObjectTypeId''))]"
  obtain r s1 t1 where c: "create_association srv (JObj ?b) s = (Inr r, s1)"
    and t1: "trace s1 = trace s @ t1"
    and st1: "sent t1 = [req POST (''/crm/v3/schemas/'' @ js_to_string (obj_lookup ?b ''fromObjectTypeId'')
                 @ ''/associations'') (Some (JObj ?b))]"
    using create_association_trace [of srv ?b s] by blast
  have run: "association_loop srv meta (map JObj (g # gs)) s = association_loop srv meta (map JObj gs) s1"
    using c by (simp add: eff_simps)
  from Cons.IH [of s1] obtain t where ok: "fst (association_loop srv meta (map JObj gs) s1) = Inr ()"
    and tr: "trace (snd (association_loop srv meta (map JObj gs) s1)) = trace s1 @ t"
    and st: "sent t = map (\<lambda>g. req POST
              (''/crm/v3/schemas/'' @ js_to_string (resolve_id meta (obj_lookup g ''fromObjectTypeId''))
                 @ ''/associations'')
              (Some (JObj [(''name'', obj_lookup g ''name''),
                           (''fromObjectTypeId'', resolve_id meta (obj_lookup g ''fromObjectTypeId'')),
                           (''toObjectTypeId'', resolve_id meta (obj_lookup g ''toObjectTypeId''))]))) gs"
    by blast
  show ?case
    unfolding run using ok tr st t1 st1
    by (intro conjI exI [of _ "t1 @ t"]) (simp_all add: obj_lookup_def)
qed

text \<open>
  C20. \<open>deleteSchemas\<close> does not guard the index lookup (lines 124--125): a
  file whose identifier is not in the registry throws a \<open>TypeError\<close> right
  after the index fetch, and no DELETE is sent.
\<close>

theorem delete_schemas_missing_identifier:
  assumes "srv (req GET ''/crm/v3/schemas'' None) (world s) = (Inr data, w)"
    and "js_get data ''results'' = Inr res" and "key_by_name res ot = None"
    and "object_type_match f = Some (p, ot)"
  shows "delete_schemas srv (f # files) s =
    (Inl TypeError, s\<lparr>world := w, trace := trace s @ [Sent (req GET ''/crm/v3/schemas'' None)]\<rparr>)"
  using get_existing_schemas_Inr [of srv s data w res, OF assms(1,2)] assms(3,4)
  by (simp add: delete_schemas_def index_get_def eff_simps)

theorem delete_schemas_missing_identifier_witness:
  "delete_schemas ex_id_server [''schemas/deal.json'', ''schemas/company.json''] \<lparr>world = 0, trace = []\<rparr> =
    (Inl TypeError, \<lparr>world = 0, trace = [Sent (req GET ''/crm/v3/schemas'' None)]\<rparr>)"
proof -
  have "ex_id_server (req GET ''/crm/v3/schemas'' None) 0 = (Inr (JObj [(''results'', JArr [])]), 0)"
    "object_type_match ''schemas/deal.json'' = Some (''schemas/deal.json'', ''deal'')"
    by code_simp+
  then show ?thesis
    using delete_schemas_missing_identifier [of ex_id_server "\<lparr>world = 0, trace = []\<rparr>"
        "JObj [(''results'', JArr [])]" 0 "JArr []" "''deal''" "''schemas/deal.json''"
        "''schemas/deal.json''" "[''schemas/company.json'']"]
    by (simp add: obj_lookup_def key_by_name_list_def)
qed

text \<open>
  C21. \<open>updateSchemas\<close> skips a schema the registry does not have: it logs
  that the object type does not exist and sends nothing but the index fetch
  (lines 216--218).
\<close>

theorem update_schemas_skips_missing:
  assumes "srv (req GET ''/crm/v3/schemas'' None) (world s) = (Inr data, w)"
    and "js_get data ''results'' = Inr res" and "key_by_name res ot = None"
    and "object_type_match f = Some (p, ot)" and "fs p = Inr sch"
  shows "update_schemas srv fs [f] s =
    (Inr (), s\<lparr>world := w, trace := trace s @ [Sent (req GET ''/crm/v3/schemas'' None),
       Logged (''Object Type '' @ ot @ '' does not exist to be updated.'')]\<rparr>)"
  using get_existing_schemas_Inr [of srv s data w res, OF assms(1,2)] assms(3-5)
  by (simp add: update_schemas_def index_get_def console_log_def eff_simps)

theorem update_schemas_skips_missing_witness:
  "update_schemas ex_id_server ex_fs [''schemas/deal.json''] \<lparr>world = 0, trace = []\<rparr> =
    (Inr (), \<lparr>world = 0, trace = [Sent (req GET ''/crm/v3/schemas'' None),
       Logged ''Object Type deal does not exist to be updated.'']\<rparr>)"
proof -
  have "ex_id_server (req GET ''/crm/v3/schemas'' None) 0 = (Inr (JObj [(''results'', JArr [])]), 0)"
    "object_type_match ''schemas/deal.json'' = Some (''schemas/deal.json'', ''deal'')"
    "ex_fs ''schemas/deal.json'' = Inr (JObj [(''name'', JStr ''deal'')])"
    by code_simp+
  then show ?thesis
    using update_schemas_skips_missing [of ex_id_server "\<lparr>world = 0, trace = []\<rparr>"
        "JObj [(''results'', JArr [])]" 0 "JArr []" "''deal''" "''schemas/deal.json''"
        "''schemas/deal.json''" ex_fs "JObj [(''name'', JStr ''deal'')]"]
    by (simp add: obj_lookup_def key_by_name_list_def)
qed

text \<open>
  C22. After \<open>updateSchema\<close> the index holds the current schema without its
  \<open>properties\<close> (line 219), so a second file with the same identifier in the
  same run is reconciled against \<open>undefined\<close> properties and \<open>schemaDiff\<close>
  throws a \<open>TypeError\<close>.
\<close>

theorem update_plan_consumes_properties:
  assumes "update_plan u c = Inr (d, cs)" and "u' \<noteq> JUndef" and "u' \<noteq> JNull"
  shows "update_plan u' cs = Inl TypeError"
proof -
  obtain pu u2 pc where "pick u ''properties'' JUndef = Inr (pu, u2)"
    and pc: "pick c ''properties'' JUndef = Inr (pc, cs)"
    using assms(1) by (auto simp: update_plan_def split: prod.splits)
  from pick_Inr [OF pc] have "cs = js_delete c ''properties''" "c \<noteq> JUndef" "c \<noteq> JNull" by auto
  then have pc': "pick cs ''properties'' JUndef = Inr (JUndef, js_delete cs ''properties'')"
    by (simp add: pick_def js_get_deleted)
  obtain y u'' where pu': "pick u' ''properties'' JUndef = Inr (y, u'')"
    using assms(2,3) by (cases u') (auto simp: pick_def)
  show ?thesis
    by (simp add: update_plan_def schema_diff_def pu' pc')
qed

theorem update_plan_consumes_properties_witness:
  "update_plan ex_upd ex_cs = Inl TypeError"
  using update_plan_consumes_properties [OF ex_update_plan, of ex_upd]
  by (simp add: ex_upd_def)

text \<open>
  C24. A failed property DELETE ends the whole \<open>update\<close> run: the error
  escapes \<open>updateSchema\<close> and \<open>updateSchemas\<close> (lines 182, 221), and no
  later property or file is processed, although the spec says per-item
  failures never abort the batch.
\<close>

theorem update_schemas_delete_failure_aborts:
  assumes "srv (req GET ''/crm/v3/schemas'' None) (world s) = (Inr data, w)"
    and "js_get data ''results'' = Inr res" and "key_by_name res ot = Some c" and "js_truthy c"
    and "object_type_match f = Some (p, ot)" and "fs p = Inr u"
    and "update_plan u c = Inr (d, cs)" and "to_delete d = q # qs"
    and "js_get q ''name'' = Inr qn" and "js_get cs ''name'' = Inr sn"
    and "named_path cs q = Inr path"
    and "srv (req DELETE path None) w = (Inl e, w')"
  shows "update_schemas srv fs (f # files) s =
    (Inl e, s\<lparr>world := w', trace := trace s @
       [Sent (req GET ''/crm/v3/schemas'' None),
        Logged (''Deleting property '' @ js_to_string qn @ '' on '' @ js_to_string sn),
        Sent (req DELETE path None)]\<rparr>)"
  using get_existing_schemas_Inr [of srv s data w res, OF assms(1,2)] assms(3-12)
  by (simp add: update_schemas_def update_schema_def index_get_def prop_log_def http_def eff_simps)

theorem update_schemas_delete_failure_aborts_witness:
  "update_schemas ex_reject_server ex_fs [''schemas/deal_x.json'', ''schemas/company.json'']
     \<lparr>world = 0, trace = []\<rparr> =
    (Inl (HttpStatus 500), \<lparr>world = 0, trace =
       [Sent (req GET ''/crm/v3/schemas'' None),
        Logged ''Deleting property legacy_field on deal_x'',
        Sent (req DELETE ''/properties/v2/2-7/properties/named/legacy_field'' None)]\<rparr>)"
proof -
  have h: "ex_reject_server (req GET ''/crm/v3/schemas'' None) (world \<lparr>world = 0::nat, trace = []\<rparr>)
      = (Inr (JObj [(''results'', JArr [ex_cur])]), 0)"
    "js_get (JObj [(''results'', JArr [ex_cur])]) ''results'' = Inr (JArr [ex_cur])"
    "key_by_name (JArr [ex_cur]) ''deal_x'' = Some ex_cur" "js_truthy ex_cur"
    "object_type_match ''schemas/deal_x.json'' = Some (''schemas/deal_x.json'', ''deal_x'')"
    "ex_fs ''schemas/deal_x.json'' = Inr ex_upd"
    "to_delete ex_diff = [ex_prop ''legacy_field'' ''Legacy'']"
    "js_get (ex_prop ''legacy_field'' ''Legacy'') ''name'' = Inr (JStr ''legacy_field'')"
    "js_get ex_cs ''name'' = Inr (JStr ''deal_x'')"
    "named_path ex_cs (ex_prop ''legacy_field'' ''Legacy'') =
       Inr ''/properties/v2/2-7/properties/named/legacy_field''"
    "ex_reject_server (req DELETE ''/properties/v2/2-7/properties/named/legacy_field'' None) 0
       = (Inl (HttpStatus 500), 0)"
    by code_simp+
  show ?thesis
    using update_schemas_delete_failure_aborts [where srv = ex_reject_server
        and s = "\<lparr>world = 0, trace = []\<rparr>" and fs = ex_fs and files = "[''schemas/company.json'']",
        OF h(1,2,3,4,5,6) ex_update_plan h(7,8,9,10,11)]
    by simp
qed

text \<open>
  C25. The schema loop of \<open>createSchemas\<close> runs to completion whatever the
  server answers: when every file reads to an object whose \<open>associations\<close>
  is an array or falsy, it returns normally having sent exactly one POST per
  file, in order, each with the schema less its associations.
\<close>

theorem create_loop_continues:
  assumes "\<forall>(p, ot) \<in> set ms. \<exists>fs'. fs p = Inr (JObj fs') \<and>
     (js_truthy (obj_lookup fs' ''associations'') \<longrightarrow> is_array (obj_lookup fs' ''associations''))"
  shows "\<not> isl (fst (create_loop srv fs (map Some ms) meta as s))
    \<and> (\<exists>t. trace (snd (create_loop srv fs (map Some ms) meta as s)) = trace s @ t
         \<and> sent t = map (\<lambda>(p, ot). req POST ''/crm/v3/schemas''
                             (Some (js_delete (projr (fs p)) ''associations''))) ms)"
proof -
  obtain meta' as' s' t where run: "create_loop srv fs (map Some ms @ []) meta as s = create_loop srv fs [] meta' as' s'"
    and tr: "trace s' = trace s @ t"
    and st: "sent t = map (\<lambda>(p, ot). req POST ''/crm/v3/schemas''
        (Some (js_delete (projr (fs p)) ''associations''))) ms"
    using create_loop_prefix [OF assms, of srv "[]" meta as s] by blast
  then show ?thesis by (simp add: eff_simps)
qed

theorem create_loop_continues_witness:
  "\<not> isl (fst (create_loop ex_down_server ex_fs
        (map Some [(''schemas/company.json'', ''company''), (''schemas/deal.json'', ''deal'')])
        Map.empty [] \<lparr>world = 0, trace = []\<rparr>))
   \<and> (\<exists>t. trace (snd (create_loop ex_down_server ex_fs
        (map Some [(''schemas/company.json'', ''company''), (''schemas/deal.json'', ''deal'')])
        Map.empty [] \<lparr>world = 0, trace = []\<rparr>)) = trace \<lparr>world = 0::nat, trace = []\<rparr> @ t
       \<and> sent t = [req POST ''/crm/v3/schemas'' (Some (JObj [(''name'', JStr ''company'')])),
                   req POST ''/crm/v3/schemas'' (Some (JObj [(''name'', JStr ''deal'')]))])"
proof -
  have h: "\<forall>(p, ot) \<in> set [(''schemas/company.json'', ''company''), (''schemas/deal.json'', ''deal'')].
      \<exists>fs'. ex_fs p = Inr (JObj fs') \<and>
        (js_truthy (obj_lookup fs' ''associations'') \<longrightarrow> is_array (obj_lookup fs' ''associations''))"
    by (simp add: ex_fs_def obj_lookup_def)
  show ?thesis
    using create_loop_continues [where srv = ex_down_server and fs = ex_fs and meta = Map.empty
        and as = "[]" and s = "\<lparr>world = 0, trace = []\<rparr>", OF h]
    by (simp add: ex_fs_def)
qed

text \<open>
  C26. The loop of \<open>deleteSchemas\<close> runs to completion whatever the server
  answers, when every identifier is in the index: every file's soft delete is
  sent, in order (with a purge after each that succeeded).
\<close>

theorem delete_loop_continues:
  assumes "\<forall>(p, ot) \<in> set ms. meta ot \<noteq> None \<and> meta ot \<noteq> Some JUndef \<and> meta ot \<noteq> Some JNull"
  shows "fst (delete_loop srv meta (map Some ms) s) = Inr ()
    \<and> (\<exists>t. trace (snd (delete_loop srv meta (map Some ms) s)) = trace s @ t
         \<and> subseq (map (\<lambda>(p, ot). req DELETE (''/crm/v3/schemas/'' @
               js_to_string (lodash_property (index_get meta ot) ''objectTypeId'')) None) ms) (sent t))"
  using assms
proof (induction ms arbitrary: s)
  case Nil
  then show ?case by (simp add: eff_simps)
next
  case (Cons m ms)
  obtain p ot where m: "m = (p, ot)" by fastforce
  define i where "i = lodash_property (index_get meta ot) ''objectTypeId''"
  have get: "js_get (index_get meta ot) ''objectTypeId'' = Inr i"
    using Cons.prems m by (cases "index_get meta ot") (auto simp: i_def index_get_def lodash_property_def)
  obtain b s1 t1 where ds: "delete_schema srv i s = (Inr b, s1)" and t1: "trace s1 = trace s @ t1"
    and sent1: "sent t1 = [req DELETE (''/crm/v3/schemas/'' @ js_to_string i) None]
         \<or> sent t1 = [req DELETE (''/crm/v3/schemas/'' @ js_to_string i) None,
                    req DELETE (''/crm/v3/schemas/'' @ js_to_string i @ ''/purge'') None]"
    using delete_schema_run [of srv i s] by blast
  define s2 where "s2 = (if b then s1\<lparr>trace := trace s1 @ [Logged (''Deleted '' @ ot)]\<rparr> else s1)"
  have run: "delete_loop srv meta (map Some (m # ms)) s = delete_loop srv meta (map Some ms) s2"
    using get ds by (simp add: m s2_def eff_simps)
  have t2: "trace s2 = trace s @ t1 @ (if b then [Logged (''Deleted '' @ ot)] else [])"
    by (simp add: s2_def t1)
  obtain t where r: "fst (delete_loop srv meta (map Some ms) s2) = Inr ()"
    and tr: "trace (snd (delete_loop srv meta (map Some ms) s2)) = trace s2 @ t"
    and sub: "subseq (map (\<lambda>(p, ot). req DELETE (''/crm/v3/schemas/'' @
               js_to_string (lodash_property (index_get meta ot) ''objectTypeId'')) None) ms) (sent t)"
    using Cons by auto
  have "subseq [req DELETE (''/crm/v3/schemas/'' @ js_to_string i) None] (sent t1)"
    using sent1 by auto
  from list_emb_append_mono [OF this sub]
  have "subseq (map (\<lambda>(p, ot). req DELETE (''/crm/v3/schemas/'' @
               js_to_string (lodash_property (index_get meta ot) ''objectTypeId'')) None) (m # ms))
      (sent (t1 @ (if b then [Logged (''Deleted '' @ ot)] else []) @ t))"
    by (simp add: m i_def)
  then show ?case
    unfolding run using r tr t2 by auto
qed

theorem delete_loop_continues_witness:
  "fst (delete_loop ex_down_server [''company'' \<mapsto> JObj [(''objectTypeId'', JStr ''2-0'')],
                                   ''deal'' \<mapsto> JObj [(''objectTypeId'', JStr ''2-1'')]]
          (map Some [(''schemas/company.json'', ''company''), (''schemas/deal.json'', ''deal'')])
          \<lparr>world = 0, trace = []\<rparr>) = Inr ()
   \<and> (\<exists>t. trace (snd (delete_loop ex_down_server [''company'' \<mapsto> JObj [(''objectTypeId'', JStr ''2-0'')],
                                   ''deal'' \<mapsto> JObj [(''objectTypeId'', JStr ''2-1'')]]
          (map Some [(''schemas/company.json'', ''company''), (''schemas/deal.json'', ''deal'')])
          \<lparr>world = 0, trace = []\<rparr>)) = trace \<lparr>world = 0::nat, trace = []\<rparr> @ t
       \<and> subseq [req DELETE ''/crm/v3/schemas/2-0'' None, req DELETE ''/crm/v3/schemas/2-1'' None] (sent t))"
proof -
  have h: "\<forall>(p, ot) \<in> set [(''schemas/company.json'', ''company''), (''schemas/deal.json'', ''deal'')].
      ([''company'' \<mapsto> JObj [(''objectTypeId'', JStr ''2-0'')],
        ''deal'' \<mapsto> JObj [(''objectTypeId'', JStr ''2-1'')]] :: index) ot \<noteq> None
      \<and> ([''company'' \<mapsto> JObj [(''objectTypeId'', JStr ''2-0'')],
           ''deal'' \<mapsto> JObj [(''objectTypeId'', JStr ''2-1'')]] :: index) ot \<noteq> Some JUndef
      \<and> ([''company'' \<mapsto> JObj [(''objectTypeId'', JStr ''2-0'')],
           ''deal'' \<mapsto> JObj [(''objectTypeId'', JStr ''2-1'')]] :: index) ot \<noteq> Some JNull"
    by simp
  show ?thesis
    using delete_loop_continues [where srv = ex_down_server and s = "\<lparr>world = 0, trace = []\<rparr>", OF h]
    by (simp add: index_get_def lodash_property_def obj_lookup_def)
qed

text \<open>
  C27. Property updates are best effort (spec section 4.1): when every path can
  be built, the PATCH loop returns normally whatever the server answers, having
  sent one PATCH per property to update, in order; each failure is logged.
\<close>

theorem update_props_best_effort:
  assumes "\<forall>p\<in>set ps. \<not> isl (named_path cs p)"
  shows "fst (update_props srv cs ps s) = Inr ()
    \<and> (\<exists>t. trace (snd (update_props srv cs ps s)) = trace s @ t \<and> sent t = map (update_req cs) ps)"
proof -
  have ok: "fst (update_props srv cs ps s) = Inr ()"
    using assms
  proof (induction ps arbitrary: s)
    case Nil
    then show ?case by (simp add: eff_simps)
  next
    case (Cons p ps)
    obtain path where np: "named_path cs p = Inr path" using Cons.prems by (cases "named_path cs p") auto
    obtain i pn sn where g: "js_get p ''name'' = Inr pn" "js_get cs ''name'' = Inr sn"
      using named_path_Inr [OF np] by blast
    obtain r w where "srv (req PATCH path (Some p)) (world s) = (r, w)" by fastforce
    then show ?case
      using Cons np g by (cases r) (auto simp: prop_log_def eff_simps http_Pair)
  qed
  obtain r s' where run: "update_props srv cs ps s = (r, s')" by fastforce
  from update_props_sends [of srv cs ps] run ok obtain t where
    "trace s' = trace s @ t" "sent t = map (update_req cs) ps"
    unfolding sends_prefix_def by fastforce
  with ok run show ?thesis by auto
qed

theorem update_props_best_effort_witness:
  "fst (update_props ex_reject_server ex_cs [ex_prop ''amount'' ''Amount'', ex_prop ''foo'' ''Foo''] \<lparr>world = 0, trace = []\<rparr>) = Inr ()
   \<and> (\<exists>t. trace (snd (update_props ex_reject_server ex_cs [ex_prop ''amount'' ''Amount'', ex_prop ''foo'' ''Foo''] \<lparr>world = 0, trace = []\<rparr>))
        = trace \<lparr>world = 0::nat, trace = []\<rparr> @ t
      \<and> sent t = map (update_req ex_cs) [ex_prop ''amount'' ''Amount'', ex_prop ''foo'' ''Foo''])"
proof -
  have h: "\<forall>p\<in>set [ex_prop ''amount'' ''Amount'', ex_prop ''foo'' ''Foo'']. \<not> isl (named_path ex_cs p)"
    by code_simp
  show ?thesis by (rule update_props_best_effort [OF h])
qed

text \<open>
  C28. A failed creation leaves nothing to resolve against: when the registry
  rejects every schema POST, the schema loop of \<open>createSchemas\<close> returns
  the index exactly as fetched (\<open>createSchema\<close> answers \<open>null\<close>, which
  the \<open>if (objectTypeId)\<close> guard does not store), so the associations that
  follow are still posted (C19), and an identifier the registry does not hold
  is sent as its bare name in place of an object-type id.
\<close>

theorem create_loop_rejected_keeps_index:
  assumes "\<forall>b w. isl (fst (srv (req POST ''/crm/v3/schemas'' (Some b)) w))"
    and "create_loop srv fs ms meta as s = (Inr (meta', as'), s')"
  shows "meta' = meta \<and>
    (\<forall>k. meta k = None \<and> CHR ''.'' \<notin> set k \<longrightarrow> resolve_id meta' (JStr k) = JStr k)"
proof -
  have "meta' = meta"
    using assms(2)
  proof (induction ms arbitrary: meta as s)
    case Nil
    then show ?case by (simp add: eff_simps)
  next
    case (Cons m ms)
    show ?case
    proof (cases m)
      case None
      with Cons.prems show ?thesis by (simp add: eff_simps)
    next
      case (Some fo)
      obtain p ot where m: "m = Some (p, ot)" using Some by (cases fo) auto
      from create_loop_Some_Inr_schema [OF Cons.prems [unfolded m]]
      obtain sch s0 r s1 meta1 as1 s2 where c: "create_schema srv sch s0 = (Inr r, s1)"
        and m1: "meta1 = (if js_truthy r then meta(ot \<mapsto> JObj [(''objectTypeId'', r)]) else meta)"
        and run: "create_loop srv fs ms meta1 as1 s2 = (Inr (meta', as'), s')"
        by blast
      have "r = JNull" using create_schema_rejected [OF _ c] assms(1) by blast
      with m1 run have "create_loop srv fs ms meta as1 s2 = (Inr (meta', as'), s')" by simp
      then show ?thesis by (rule Cons.IH)
    qed
  qed
  moreover have "resolve_id meta (JStr k) = JStr k" if "meta k = None" "CHR ''.'' \<notin> set k" for k
    using that split_dots_objectTypeId [OF that(2)]
    by (simp add: resolve_id_def lodash_get_def lodash_walk_one)
  ultimately show ?thesis by blast
qed

theorem create_loop_rejected_keeps_index_witness:
  "\<exists>meta' as' s'. create_loop ex_reject_server ex_fs
       [Some (''schemas/company.json'', ''company''), Some (''schemas/deal.json'', ''deal'')]
       Map.empty [] \<lparr>world = 0, trace = []\<rparr> = (Inr (meta', as'), s')
     \<and> meta' = Map.empty \<and> resolve_id meta' (JStr ''deal'') = JStr ''deal''"
proof -
  have rej: "\<forall>b w. isl (fst (ex_reject_server (req POST ''/crm/v3/schemas'' (Some b)) w))"
    by (simp add: ex_reject_server_def req_def)
  have "case create_loop ex_reject_server ex_fs
       [Some (''schemas/company.json'', ''company''), Some (''schemas/deal.json'', ''deal'')]
       Map.empty [] \<lparr>world = 0::nat, trace = []\<rparr> of (Inr _, _) \<Rightarrow> True | _ \<Rightarrow> False"
    by code_simp
  then obtain meta' as' s' where eq: "create_loop ex_reject_server ex_fs
       [Some (''schemas/company.json'', ''company''), Some (''schemas/deal.json'', ''deal'')]
       Map.empty [] \<lparr>world = 0, trace = []\<rparr> = (Inr (meta', as'), s')"
    by (auto split: prod.splits sum.splits)
  show ?thesis
    using eq create_loop_rejected_keeps_index [OF rej eq] by auto
qed

text \<open>
  C30. \<open>createSchemas\<close> runs to completion (spec section 6): once the index
  fetch succeeds, if every path matches and reads to an object whose
  \<open>associations\<close> is an array or falsy, the command returns normally,
  whatever the server answers to the schema and association requests.
\<close>

theorem create_schemas_completes:
  assumes "srv (req GET ''/crm/v3/schemas'' None) (world s) = (Inr data, w)"
    and "js_get data ''results'' = Inr res"
    and "\<forall>f\<in>set files. \<exists>p ot fs'. object_type_match f = Some (p, ot) \<and> fs p = Inr (JObj fs') \<and>
       (js_truthy (obj_lookup fs' ''associations'') \<longrightarrow> is_array (obj_lookup fs' ''associations''))"
  shows "fst (create_schemas srv fs files s) = Inr ()"
proof -
  define ms where "ms = map (\<lambda>f. the (object_type_match f)) files"
  have ms: "map object_type_match files = map Some ms"
    using assms(3) by (auto simp: ms_def)
  have "\<forall>(p, ot) \<in> set ms. \<exists>fs'. fs p = Inr (JObj fs') \<and>
     (js_truthy (obj_lookup fs' ''associations'') \<longrightarrow> is_array (obj_lookup fs' ''associations''))"
    using assms(3) by (fastforce simp: ms_def)
  from create_loop_objects [where as = "[]" and srv = srv and meta = "key_by_name res"
      and s = "s\<lparr>world := w, trace := trace s @ [Sent (req GET ''/crm/v3/schemas'' None)]\<rparr>", OF this]
  obtain meta' as' s' where loop: "create_loop srv fs (map Some ms) (key_by_name res) []
      (s\<lparr>world := w, trace := trace s @ [Sent (req GET ''/crm/v3/schemas'' None)]\<rparr>) = (Inr (meta', as'), s')"
    and objs: "\<forall>a\<in>set as'. \<exists>g. a = JObj g"
    by auto
  obtain s'' where "association_loop srv meta' as' s' = (Inr (), s'')"
    using association_loop_run [OF objs] by blast
  then show ?thesis
    using get_existing_schemas_Inr [of srv s data w res, OF assms(1,2)] loop
    by (simp add: create_schemas_def ms eff_simps)
qed

theorem create_schemas_completes_witness:
  "fst (create_schemas ex_reject_server ex_fs [''schemas/company.json'', ''schemas/deal.json'']
     \<lparr>world = 0, trace = []\<rparr>) = Inr ()"
proof -
  have h: "ex_reject_server (req GET ''/crm/v3/schemas'' None) (world \<lparr>world = 0::nat, trace = []\<rparr>)
      = (Inr (JObj [(''results'', JArr [ex_cur])]), 0)"
    "js_get (JObj [(''results'', JArr [ex_cur])]) ''results'' = Inr (JArr [ex_cur])"
    "\<forall>f\<in>set [''schemas/company.json'', ''schemas/deal.json'']. \<exists>p ot fs'.
       object_type_match f = Some (p, ot) \<and> ex_fs p = Inr (JObj fs') \<and>
       (js_truthy (obj_lookup fs' ''associations'') \<longrightarrow> is_array (obj_lookup fs' ''associations''))"
  proof -
    have "object_type_match ''schemas/company.json'' = Some (''schemas/company.json'', ''company'')"
      "object_type_match ''schemas/deal.json'' = Some (''schemas/deal.json'', ''deal'')"
      by code_simp+
    then show "ex_reject_server (req GET ''/crm/v3/schemas'' None) (world \<lparr>world = 0::nat, trace = []\<rparr>)
      = (Inr (JObj [(''results'', JArr [ex_cur])]), 0)"
      "js_get (JObj [(''results'', JArr [ex_cur])]) ''results'' = Inr (JArr [ex_cur])"
      "\<forall>f\<in>set [''schemas/company.json'', ''schemas/deal.json'']. \<exists>p ot fs'.
       object_type_match f = Some (p, ot) \<and> ex_fs p = Inr (JObj fs') \<and>
       (js_truthy (obj_lookup fs' ''associations'') \<longrightarrow> is_array (obj_lookup fs' ''associations''))"
      by (simp_all add: ex_reject_server_def ex_fs_def obj_lookup_def req_def)
  qed
  show ?thesis
    using create_schemas_completes [where srv = ex_reject_server and fs = ex_fs, OF h] .
qed


text \<open>
  C34. A file that cannot be read or parsed ends \<open>createSchemas\<close> (spec
  section 7: malformed input is fatal), and what the run did before it stays
  done: the command ends with the read error, after the index fetch and one
  schema POST for each earlier file, and with no association posted at all,
  not even those of the schemas it created.
\<close>

theorem create_schemas_read_error:
  assumes "srv (req GET ''/crm/v3/schemas'' None) (world s) = (Inr data, w)"
    and "js_get data ''results'' = Inr res"
    and "map object_type_match files = map Some ms @ Some (p, ot) # rest"
    and "\<forall>(p, ot) \<in> set ms. \<exists>fs'. fs p = Inr (JObj fs') \<and>
       (js_truthy (obj_lookup fs' ''associations'') \<longrightarrow> is_array (obj_lookup fs' ''associations''))"
    and "fs p = Inl e"
  shows "fst (create_schemas srv fs files s) = Inl e
    \<and> (\<exists>t. trace (snd (create_schemas srv fs files s)) = trace s @ t
         \<and> sent t = req GET ''/crm/v3/schemas'' None # map (\<lambda>(p, ot). req POST ''/crm/v3/schemas''
                      (Some (js_delete (projr (fs p)) ''associations''))) ms)"
proof -
  define s0 where "s0 = s\<lparr>world := w, trace := trace s @ [Sent (req GET ''/crm/v3/schemas'' None)]\<rparr>"
  obtain meta' as' s' t where run: "create_loop srv fs (map Some ms @ Some (p, ot) # rest) (key_by_name res) [] s0
      = create_loop srv fs (Some (p, ot) # rest) meta' as' s'"
    and tr: "trace s' = trace s0 @ t"
    and st: "sent t = map (\<lambda>(p, ot). req POST ''/crm/v3/schemas''
        (Some (js_delete (projr (fs p)) ''associations''))) ms"
    using create_loop_prefix [OF assms(4), of srv "Some (p, ot) # rest" "key_by_name res" "[]" s0] by blast
  have "create_schemas srv fs files s = (Inl e, s')"
    using get_existing_schemas_Inr [of srv s data w res, OF assms(1,2)] run assms(5)
    by (simp add: create_schemas_def assms(3) s0_def [symmetric] eff_simps)
  then show ?thesis
    using tr st by (intro conjI exI [of _ "Sent (req GET ''/crm/v3/schemas'' None) # t"]) (simp_all add: s0_def)
qed

theorem create_schemas_read_error_witness:
  "fst (create_schemas ex_id_server ex_fs [''schemas/company.json'', ''schemas/missing.json'', ''schemas/deal.json'']
      \<lparr>world = 0, trace = []\<rparr>) = Inl FsError
   \<and> (\<exists>t. trace (snd (create_schemas ex_id_server ex_fs
          [''schemas/company.json'', ''schemas/missing.json'', ''schemas/deal.json''] \<lparr>world = 0, trace = []\<rparr>))
          = trace \<lparr>world = 0::nat, trace = []\<rparr> @ t
        \<and> sent t = req GET ''/crm/v3/schemas'' None # map (\<lambda>(p, ot). req POST ''/crm/v3/schemas''
             (Some (js_delete (projr (ex_fs p)) ''associations''))) [(''schemas/company.json'', ''company'')])"
proof -
  have m: "map object_type_match [''schemas/company.json'', ''schemas/missing.json'', ''schemas/deal.json'']
      = map Some [(''schemas/company.json'', ''company'')] @ Some (''schemas/missing.json'', ''missing'')
        # [Some (''schemas/deal.json'', ''deal'')]"
    by code_simp
  have g: "ex_id_server (req GET ''/crm/v3/schemas'' None) (world \<lparr>world = 0::nat, trace = []\<rparr>)
      = (Inr (JObj [(''results'', JArr [])]), 0)"
    "js_get (JObj [(''results'', JArr [])]) ''results'' = Inr (JArr [])"
    by code_simp+
  have f: "\<forall>(p, ot) \<in> set [(''schemas/company.json'', ''company'')]. \<exists>fs'. ex_fs p = Inr (JObj fs') \<and>
       (js_truthy (obj_lookup fs' ''associations'') \<longrightarrow> is_array (obj_lookup fs' ''associations''))"
    "ex_fs ''schemas/missing.json'' = Inl FsError"
    by (simp_all add: ex_fs_def obj_lookup_def)
  show ?thesis
    using create_schemas_read_error [where srv = ex_id_server and fs = ex_fs and s = "\<lparr>world = 0, trace = []\<rparr>"
        and ms = "[(''schemas/company.json'', ''company'')]" and p = "''schemas/missing.json''" and ot = "''missing''"
        and rest = "[Some (''schemas/deal.json'', ''deal'')]", OF g m f] .
qed

end
