(* ===== verification/Registry.thy ===== *)
theory Registry
  imports Orchestrator
begin

text \<open>
  A reference registry for the property endpoints, as spec section 5 describes
  them: the world maps an object-type identifier to its list of properties; a
  DELETE removes the properties of that name, a POST appends the body, a PATCH
  replaces the properties of that name by the body.
\<close>

type_synonym registry = "string \<rightharpoonup> jval list"

fun split_on :: "char \<Rightarrow> string \<Rightarrow> string list" where
  "split_on c [] = [[]]"
| "split_on c (x # xs) =
     (if x = c then [] # split_on c xs
      else (case split_on c xs of k # ks \<Rightarrow> (x # k) # ks | [] \<Rightarrow> [[x]]))"

definition ref_server :: "registry server" where
  "ref_server rq w =
     (let xs = split_on CHR ''/'' (req_path rq); b = the (req_body rq) in
      if 5 \<le> length xs \<and> take 3 xs = [[], ''properties'', ''v2''] \<and> xs ! 4 = ''properties'' then
        (case w (xs ! 3) of
           None \<Rightarrow> (Inl (HttpStatus 404), w)
         | Some ps \<Rightarrow>
             if length xs = 5 \<and> req_method rq = POST \<and> req_body rq \<noteq> None then
               (Inr b, w(xs ! 3 \<mapsto> ps @ [b]))
             else if length xs = 7 \<and> xs ! 5 = ''named'' \<and> req_method rq = DELETE then
               (Inr JNull, w(xs ! 3 \<mapsto> filter (\<lambda>p. prop_name p \<noteq> JStr (xs ! 6)) ps))
             else if length xs = 7 \<and> xs ! 5 = ''named'' \<and> req_method rq = PATCH \<and> req_body rq \<noteq> None then
               (Inr b, w(xs ! 3 \<mapsto> map (\<lambda>p. if prop_name p = JStr (xs ! 6) then b else p) ps))
             else (Inl (HttpStatus 400), w))
      else (Inl (HttpStatus 404), w))"

definition patch_all :: "jval list \<Rightarrow> jval list \<Rightarrow> jval list" where
  "patch_all ps us = foldl (\<lambda>ps u. map (\<lambda>p. if prop_name p = prop_name u then u else p) ps) ps us"

fun slash_free :: "jval \<Rightarrow> bool" where
  "slash_free (JStr n) = (CHR ''/'' \<notin> set n)"
| "slash_free v = False"

text \<open>A property none of whose fields holds an object: the properties for which
  \<open>!==\<close> on fields is a comparison of values.\<close>

fun is_object :: "jval \<Rightarrow> bool" where
  "is_object (JObj fs) = True"
| "is_object v = False"

definition flat_property :: "jval \<Rightarrow> bool" where
  "flat_property p \<longleftrightarrow> list_all (\<lambda>k. \<not> is_object (prop_field p k)) (prop_keys p)"

section \<open>Lemmas\<close>

lemma split_on_no: "c \<notin> set y \<Longrightarrow> split_on c y = [y]"
  by (induction y) auto

lemma split_on_append: "c \<notin> set x \<Longrightarrow> split_on c (x @ c # y) = x # split_on c y"
  by (induction x) auto

lemma ref_paths:
  assumes "CHR ''/'' \<notin> set i" "CHR ''/'' \<notin> set n"
  shows "split_on CHR ''/'' (''/properties/v2/'' @ i @ ''/properties/named/'' @ n)
      = [[], ''properties'', ''v2'', i, ''properties'', ''named'', n]"
    "split_on CHR ''/'' (''/properties/v2/'' @ i @ ''/properties'') = [[], ''properties'', ''v2'', i, ''properties'']"
  using assms by (simp_all add: split_on_append split_on_no)

lemma ref_server_requests:
  assumes "CHR ''/'' \<notin> set i" "CHR ''/'' \<notin> set n" "w i = Some ps"
  shows "ref_server (req DELETE (''/properties/v2/'' @ i @ ''/properties/named/'' @ n) None) w
      = (Inr JNull, w(i \<mapsto> filter (\<lambda>p. prop_name p \<noteq> JStr n) ps))"
    "ref_server (req POST (''/properties/v2/'' @ i @ ''/properties'') (Some b)) w
      = (Inr b, w(i \<mapsto> ps @ [b]))"
    "ref_server (req PATCH (''/properties/v2/'' @ i @ ''/properties/named/'' @ n) (Some b)) w
      = (Inr b, w(i \<mapsto> map (\<lambda>p. if prop_name p = JStr n then b else p) ps))"
  using assms by (simp_all add: ref_server_def req_def split_on_append split_on_no)


lemma prop_name_str:
  "wf_property p \<Longrightarrow> slash_free (prop_name p) \<Longrightarrow>
   \<exists>n. prop_name p = JStr n \<and> CHR ''/'' \<notin> set n \<and> js_get p ''name'' = Inr (JStr n)"
  by (cases "prop_name p") (auto simp: js_get_prop_field)

lemma delete_props_ref:
  assumes cs: "js_get cs ''objectTypeId'' = Inr (JStr i)" "js_get cs ''name'' = Inr sn"
    "CHR ''/'' \<notin> set i"
    and "list_all (\<lambda>p. wf_property p \<and> slash_free (prop_name p)) ds" and "world s i = Some ps"
  shows "\<exists>t. delete_props ref_server cs ds s =
    (Inr (), s\<lparr>world := (world s)(i \<mapsto> filter (\<lambda>p. prop_name p \<notin> prop_name ` set ds) ps),
               trace := trace s @ t\<rparr>)"
  using assms(4,5)
proof (induction ds arbitrary: s ps)
  case Nil
  then show ?case by (intro exI [of _ "[]"]) (simp add: eff_simps map_upd_triv)
next
  case (Cons d ds)
  obtain n where n: "prop_name d = JStr n" "CHR ''/'' \<notin> set n" "js_get d ''name'' = Inr (JStr n)"
    using prop_name_str Cons.prems(1) by auto
  define s1 where "s1 = s\<lparr>world := (world s)(i \<mapsto> filter (\<lambda>p. prop_name p \<noteq> JStr n) ps),
      trace := trace s @ [Logged (''Deleting property '' @ n @ '' on '' @ js_to_string sn),
        Sent (req DELETE (''/properties/v2/'' @ i @ ''/properties/named/'' @ n) None)]\<rparr>"
  have run: "delete_props ref_server cs (d # ds) s = delete_props ref_server cs ds s1"
    using cs n Cons.prems(2) ref_server_requests(1) [where w = "world s", OF cs(3) n(2) Cons.prems(2)]
    by (simp add: prop_log_def named_path_def http_def s1_def eff_simps)
  have w1: "world s1 i = Some (filter (\<lambda>p. prop_name p \<noteq> JStr n) ps)" by (simp add: s1_def)
  have ds: "list_all (\<lambda>p. wf_property p \<and> slash_free (prop_name p)) ds" using Cons.prems(1) by simp
  from Cons.IH [OF ds w1] obtain t where "delete_props ref_server cs ds s1 =
      (Inr (), s1\<lparr>world := (world s1)(i \<mapsto> filter (\<lambda>p. prop_name p \<notin> prop_name ` set ds)
                  (filter (\<lambda>p. prop_name p \<noteq> JStr n) ps)), trace := trace s1 @ t\<rparr>)"
    by blast
  then have "delete_props ref_server cs (d # ds) s =
    (Inr (), s\<lparr>world := (world s)(i \<mapsto> filter (\<lambda>p. prop_name p \<notin> prop_name ` set (d # ds)) ps),
      trace := trace s @ ([Logged (''Deleting property '' @ n @ '' on '' @ js_to_string sn),
        Sent (req DELETE (''/properties/v2/'' @ i @ ''/properties/named/'' @ n) None)] @ t)\<rparr>)"
    unfolding run by (simp add: s1_def n(1) conj_commute)
  then show ?case by blast
qed


lemma create_props_ref:
  assumes cs: "js_get cs ''objectTypeId'' = Inr (JStr i)" "js_get cs ''name'' = Inr sn"
    "CHR ''/'' \<notin> set i"
    and "list_all (\<lambda>p. wf_property p \<and> slash_free (prop_name p)) ds" and "world s i = Some ps"
  shows "\<exists>t. create_props ref_server cs ds s =
    (Inr (), s\<lparr>world := (world s)(i \<mapsto> ps @ ds), trace := trace s @ t\<rparr>)"
  using assms(4,5)
proof (induction ds arbitrary: s ps)
  case Nil
  then show ?case by (intro exI [of _ "[]"]) (simp add: eff_simps map_upd_triv)
next
  case (Cons d ds)
  obtain n where n: "prop_name d = JStr n" "CHR ''/'' \<notin> set n" "js_get d ''name'' = Inr (JStr n)"
    using prop_name_str Cons.prems(1) by auto
  define s1 where "s1 = s\<lparr>world := (world s)(i \<mapsto> ps @ [d]),
      trace := trace s @ [Logged (''Creating property '' @ n @ '' on '' @ js_to_string sn),
        Sent (req POST (''/properties/v2/'' @ i @ ''/properties'') (Some d))]\<rparr>"
  have run: "create_props ref_server cs (d # ds) s = create_props ref_server cs ds s1"
    using cs n Cons.prems(2) ref_server_requests(2) [where w = "world s", OF cs(3) n(2) Cons.prems(2)]
    by (simp add: prop_log_def http_def s1_def eff_simps)
  have w1: "world s1 i = Some (ps @ [d])" by (simp add: s1_def)
  have ds: "list_all (\<lambda>p. wf_property p \<and> slash_free (prop_name p)) ds" using Cons.prems(1) by simp
  from Cons.IH [OF ds w1] obtain t where "create_props ref_server cs ds s1 =
      (Inr (), s1\<lparr>world := (world s1)(i \<mapsto> (ps @ [d]) @ ds), trace := trace s1 @ t\<rparr>)"
    by blast
  then have "create_props ref_server cs (d # ds) s =
    (Inr (), s\<lparr>world := (world s)(i \<mapsto> ps @ d # ds),
      trace := trace s @ ([Logged (''Creating property '' @ n @ '' on '' @ js_to_string sn),
        Sent (req POST (''/properties/v2/'' @ i @ ''/properties'') (Some d))] @ t)\<rparr>)"
    unfolding run by (simp add: s1_def)
  then show ?case by blast
qed

lemma update_props_ref:
  assumes cs: "js_get cs ''objectTypeId'' = Inr (JStr i)" "js_get cs ''name'' = Inr sn"
    "CHR ''/'' \<notin> set i"
    and "list_all (\<lambda>p. wf_property p \<and> slash_free (prop_name p)) ds" and "world s i = Some ps"
  shows "\<exists>t. update_props ref_server cs ds s =
    (Inr (), s\<lparr>world := (world s)(i \<mapsto> patch_all ps ds), trace := trace s @ t\<rparr>)"
  using assms(4,5)
proof (induction ds arbitrary: s ps)
  case Nil
  then show ?case by (intro exI [of _ "[]"]) (simp add: eff_simps map_upd_triv patch_all_def)
next
  case (Cons d ds)
  obtain n where n: "prop_name d = JStr n" "CHR ''/'' \<notin> set n" "js_get d ''name'' = Inr (JStr n)"
    using prop_name_str Cons.prems(1) by auto
  define ps1 where "ps1 = map (\<lambda>p. if prop_name p = JStr n then d else p) ps"
  define s1 where "s1 = s\<lparr>world := (world s)(i \<mapsto> ps1),
      trace := trace s @ [Logged (''Updating property '' @ n @ '' on '' @ js_to_string sn),
        Sent (req PATCH (''/properties/v2/'' @ i @ ''/properties/named/'' @ n) (Some d))]\<rparr>"
  have run: "update_props ref_server cs (d # ds) s = update_props ref_server cs ds s1"
    using cs n Cons.prems(2) ref_server_requests(3) [where w = "world s", OF cs(3) n(2) Cons.prems(2)]
    by (simp add: prop_log_def named_path_def http_def s1_def ps1_def eff_simps)
  have w1: "world s1 i = Some ps1" by (simp add: s1_def)
  have ds: "list_all (\<lambda>p. wf_property p \<and> slash_free (prop_name p)) ds" using Cons.prems(1) by simp
  from Cons.IH [OF ds w1] obtain t where "update_props ref_server cs ds s1 =
      (Inr (), s1\<lparr>world := (world s1)(i \<mapsto> patch_all ps1 ds), trace := trace s1 @ t\<rparr>)"
    by blast
  moreover have "patch_all ps1 ds = patch_all ps (d # ds)"
    by (simp add: patch_all_def ps1_def n(1))
  ultimately have "update_props ref_server cs (d # ds) s =
    (Inr (), s\<lparr>world := (world s)(i \<mapsto> patch_all ps (d # ds)),
      trace := trace s @ ([Logged (''Updating property '' @ n @ '' on '' @ js_to_string sn),
        Sent (req PATCH (''/properties/v2/'' @ i @ ''/properties/named/'' @ n) (Some d))] @ t)\<rparr>)"
    unfolding run by (simp add: s1_def)
  then show ?case by blast
qed


section \<open>The registry after one update\<close>

definition patched :: "jval list \<Rightarrow> jval \<Rightarrow> jval" where
  "patched us p = (case find (\<lambda>u. prop_name u = prop_name p) us of None \<Rightarrow> p | Some u \<Rightarrow> u)"

lemma patch_all_map: "distinct (map prop_name us) \<Longrightarrow> patch_all ps us = map (patched us) ps"
proof (induction us arbitrary: ps)
  case Nil
  then show ?case by (simp add: patch_all_def patched_def)
next
  case (Cons u us)
  have "patch_all ps (u # us) = patch_all (map (\<lambda>p. if prop_name p = prop_name u then u else p) ps) us"
    by (simp add: patch_all_def)
  also have "\<dots> = map (patched us) (map (\<lambda>p. if prop_name p = prop_name u then u else p) ps)"
    using Cons by simp
  also have "\<dots> = map (patched (u # us)) ps"
  proof -
    have "find (\<lambda>v. prop_name v = prop_name u) us = None"
      unfolding find_None_iff using Cons.prems by (auto simp: image_iff)
    then show ?thesis by (auto simp: patched_def)
  qed
  finally show ?case .
qed

lemma patched_name: "prop_name (patched us p) = prop_name p"
  by (auto simp: patched_def dest: find_Some_in_set split: option.splits)

lemma patched_cases: "patched us p = p \<or> patched us p \<in> set us"
  by (auto simp: patched_def dest: find_Some_in_set split: option.splits)

lemma find_by_name_patched:
  "find_by_name (map (patched us) xs) n = map_option (patched us) (find_by_name xs n)"
  by (induction xs) (auto simp: find_by_name_def patched_name)

lemma find_by_name_filter:
  "(\<And>x. prop_name x = n \<Longrightarrow> P x) \<Longrightarrow> find_by_name (filter P xs) n = find_by_name xs n"
  by (induction xs) (auto simp: find_by_name_def)

lemma find_by_name_append:
  "find_by_name (xs @ ys) n =
     (case find_by_name xs n of None \<Rightarrow> find_by_name ys n | Some x \<Rightarrow> Some x)"
  by (induction xs) (simp_all add: find_by_name_def)

lemma find_by_name_None: "find_by_name xs n = None \<longleftrightarrow> n \<notin> prop_name ` set xs"
  by (auto simp: find_by_name_def find_None_iff)

lemma find_by_name_distinct:
  "distinct (map prop_name xs) \<Longrightarrow> x \<in> set xs \<Longrightarrow> find_by_name xs (prop_name x) = Some x"
  by (induction xs) (auto simp: find_by_name_def)

lemma field_differs_refl: "wf_field x \<Longrightarrow> \<not> is_object x \<Longrightarrow> \<not> field_differs x x"
  by (cases x) (auto simp: same_options_def)

lemma prop_differs_refl: "wf_property u \<Longrightarrow> flat_property u \<Longrightarrow> \<not> prop_differs u u"
  by (auto simp: prop_differs_def flat_property_def list_all_iff wf_property_field field_differs_refl)


text \<open>The registry's list after one update, for the diff \<open>d\<close> of \<open>U\<close> against
  \<open>C\<close>: the deleted names removed, the created properties appended, the
  updated ones patched in.\<close>

definition after_update :: "jval list \<Rightarrow> jval list \<Rightarrow> jval list" where
  "after_update U C =
     (let d = spec_diff U C in
      patch_all (filter (\<lambda>p. prop_name p \<notin> prop_name ` set (to_delete d)) C @ to_create d) (to_update d))"

lemma after_update_map:
  assumes "distinct (map prop_name U)"
  shows "after_update U C = map (patched (to_update (spec_diff U C)))
    (filter (\<lambda>p. prop_name p \<notin> prop_name ` set (to_delete (spec_diff U C))) C @ to_create (spec_diff U C))"
proof -
  have "distinct (map prop_name (to_update (spec_diff U C)))"
    using assms by (simp add: spec_diff_def distinct_map_filter)
  then show ?thesis by (simp add: after_update_def Let_def patch_all_map)
qed

lemma after_update_find:
  assumes agree: "arrays_agree U C" and flat: "list_all flat_property U"
    and wfU: "list_all wf_property U" and dist: "distinct (map prop_name U)" and u: "u \<in> set U"
  shows "\<exists>e'. find_by_name (after_update U C) (prop_name u) = Some e' \<and> \<not> prop_differs u e'
    \<and> (\<forall>k\<in>set (prop_keys u). is_array (prop_field u k) \<longrightarrow> is_array (prop_field e' k))"
proof -
  let ?d = "spec_diff U C"
  let ?up = "to_update ?d" and ?cr = "to_create ?d"
  let ?C1 = "filter (\<lambda>p. prop_name p \<notin> prop_name ` set (to_delete ?d)) C"
  have dup: "distinct (map prop_name ?up)" and dcr: "distinct (map prop_name ?cr)"
    using dist by (simp_all add: spec_diff_def distinct_map_filter)
  have C': "after_update U C = map (patched ?up) (?C1 @ ?cr)"
    using after_update_map [OF dist] .
  have refl: "\<not> prop_differs u u"
    using u wfU flat by (simp add: prop_differs_refl list_all_iff)
  have C1: "find_by_name ?C1 (prop_name u) = find_by_name C (prop_name u)"
    using u by (intro find_by_name_filter) (auto simp: spec_diff_def image_iff, metis)
  have only_u: "v = u" if "v \<in> set U" "prop_name v = prop_name u" for v
    using dist that u by (metis distinct_map inj_onD)
  show ?thesis
  proof (cases "find_by_name C (prop_name u)")
    case None
    then have "u \<in> set ?cr" using u by (simp add: spec_diff_def find_by_name_None)
    then have "find_by_name ?cr (prop_name u) = Some u" using find_by_name_distinct [OF dcr] by simp
    moreover have "patched ?up u = u"
    proof -
      have "prop_name v \<noteq> prop_name u" if "v \<in> set ?up" for v
      proof -
        from that have "find_by_name C (prop_name v) \<noteq> None"
          by (auto simp: spec_diff_def split: option.splits)
        with None show ?thesis by auto
      qed
      then have "find (\<lambda>v. prop_name v = prop_name u) ?up = None"
        unfolding find_None_iff by blast
      then show ?thesis by (simp add: patched_def)
    qed
    ultimately show ?thesis
      using None C1 refl by (auto simp: C' find_by_name_patched find_by_name_append)
  next
    case (Some e)
    then have name_e: "prop_name e = prop_name u"
      by (auto simp: find_by_name_def dest: find_Some_in_set)
    have agree_e: "\<forall>k\<in>set (prop_keys u). is_array (prop_field u k) \<longrightarrow> is_array (prop_field e k)"
      using agree u Some by (auto simp: arrays_agree_def)
    show ?thesis
    proof (cases "prop_differs u e")
      case True
      then have "u \<in> set ?up" using u Some by (simp add: spec_diff_def)
      then have "patched ?up e = u"
        using find_by_name_distinct [OF dup] name_e by (simp add: patched_def find_by_name_def)
      then show ?thesis
        using Some C1 refl by (auto simp: C' find_by_name_patched find_by_name_append)
    next
      case False
      have "prop_name v \<noteq> prop_name u" if "v \<in> set ?up" for v
      proof
        assume "prop_name v = prop_name u"
        with that only_u have "u \<in> set ?up" by (auto simp: spec_diff_def)
        with Some False show False by (simp add: spec_diff_def)
      qed
      then have "find (\<lambda>v. prop_name v = prop_name e) ?up = None"
        unfolding find_None_iff name_e by blast
      then have "patched ?up e = e" by (simp add: patched_def)
      then show ?thesis
        using Some C1 False agree_e by (auto simp: C' find_by_name_patched find_by_name_append)
    qed
  qed
qed


lemma after_update_diff:
  assumes wfU: "list_all wf_property U" and wfC: "list_all wf_property C"
    and agree: "arrays_agree U C" and flat: "list_all flat_property U"
    and dist: "distinct (map prop_name U)"
  shows "schema_diff (JArr U) (JArr (after_update U C)) =
    Inr \<lparr>to_delete = [], to_create = [], to_update = []\<rparr>"
proof -
  let ?d = "spec_diff U C"
  let ?C1 = "filter (\<lambda>p. prop_name p \<notin> prop_name ` set (to_delete ?d)) C"
  have C': "after_update U C = map (patched (to_update ?d)) (?C1 @ to_create ?d)"
    using after_update_map [OF dist] .
  have src: "x \<in> set C \<or> x \<in> set U" if xin: "x \<in> set (after_update U C)" for x
  proof -
    obtain y where y: "y \<in> set (?C1 @ to_create ?d)" "x = patched (to_update ?d) y"
      using xin unfolding C' set_map by blast
    then show ?thesis using patched_cases [of "to_update ?d" y] by (auto simp: spec_diff_def)
  qed
  have wfC': "list_all wf_property (after_update U C)"
    using src wfU wfC by (auto simp: list_all_iff)
  have found: "\<exists>e'. find_by_name (after_update U C) (prop_name u) = Some e' \<and> \<not> prop_differs u e'
      \<and> (\<forall>k\<in>set (prop_keys u). is_array (prop_field u k) \<longrightarrow> is_array (prop_field e' k))"
    if "u \<in> set U" for u
    using after_update_find [OF agree flat wfU dist that] .
  have agree': "arrays_agree U (after_update U C)"
    unfolding arrays_agree_def using found by fastforce
  have kept: "reserved_name (prop_name c) \<or> prop_name c \<in> prop_name ` set U"
    if cin: "c \<in> set (after_update U C)" for c
  proof -
    obtain x where x: "x \<in> set (?C1 @ to_create ?d)" "c = patched (to_update ?d) x"
      using cin unfolding C' set_map by blast
    show ?thesis
    proof (cases "x \<in> set (to_create ?d)")
      case True
      then show ?thesis using x(2) by (auto simp: patched_name spec_diff_def)
    next
      case False
      with x(1) have "x \<in> set C" "prop_name x \<notin> prop_name ` set (to_delete ?d)" by auto
      then show ?thesis using x(2) by (auto simp: patched_name spec_diff_def)
    qed
  qed
  have "spec_diff U (after_update U C) = \<lparr>to_delete = [], to_create = [], to_update = []\<rparr>"
  proof -
    have "filter (\<lambda>c. \<not> reserved_name (prop_name c) \<and> prop_name c \<notin> prop_name ` set U)
        (after_update U C) = []"
      using kept by (auto simp: filter_empty_conv)
    moreover have "filter (\<lambda>u. prop_name u \<notin> prop_name ` set (after_update U C)) U = []"
      using found by (fastforce simp: filter_empty_conv find_by_name_None [symmetric])
    moreover have "filter (\<lambda>u. case find_by_name (after_update U C) (prop_name u) of
        None \<Rightarrow> False | Some e \<Rightarrow> prop_differs u e) U = []"
      using found by (fastforce simp: filter_empty_conv)
    ultimately show ?thesis by (simp add: spec_diff_def)
  qed
  then show ?thesis
    using schema_diff_spec [OF wfU wfC' agree'] by simp
qed


lemma obj_lookup_filter_other:
  "k \<noteq> k' \<Longrightarrow> obj_lookup (filter (\<lambda>f. fst f \<noteq> k') fs) k = obj_lookup fs k"
  by (induction fs) (auto simp: obj_lookup_def)

lemma update_schema_ref:
  assumes wfU: "list_all wf_property U" and wfC: "list_all wf_property C"
    and agree: "arrays_agree U C"
    and names: "list_all (\<lambda>p. slash_free (prop_name p)) U" "list_all (\<lambda>p. slash_free (prop_name p)) C"
    and i: "CHR ''/'' \<notin> set i" and w: "w i = Some C"
    and u: "obj_lookup ufs ''properties'' = JArr U"
    and c: "obj_lookup cfs ''properties'' = JArr C" "obj_lookup cfs ''objectTypeId'' = JStr i"
  shows "\<exists>t. update_schema ref_server (JObj ufs) (JObj cfs) \<lparr>world = w, trace = tr\<rparr> =
    (Inr (js_delete (JObj cfs) ''properties''), \<lparr>world = w(i \<mapsto> after_update U C), trace = tr @ t\<rparr>)"
proof -
  let ?d = "spec_diff U C" and ?cs = "js_delete (JObj cfs) ''properties''"
  let ?ok = "\<lambda>p. wf_property p \<and> slash_free (prop_name p)"
  have plan: "update_plan (JObj ufs) (JObj cfs) = Inr (?d, ?cs)"
    using u c schema_diff_spec [OF wfU wfC agree] by (simp add: update_plan_def pick_def)
  have oid: "js_get ?cs ''objectTypeId'' = Inr (JStr i)"
    using c by (simp add: obj_lookup_filter_other)
  obtain sn where sn: "js_get ?cs ''name'' = Inr sn" by simp
  have okU: "list_all ?ok U" and okC: "list_all ?ok C"
    using wfU wfC names by (simp_all add: list_all_iff)
  have okd: "list_all ?ok (to_delete ?d)" "list_all ?ok (to_create ?d)" "list_all ?ok (to_update ?d)"
    using okU okC by (simp_all add: spec_diff_def list_all_iff)
  let ?C1 = "filter (\<lambda>p. prop_name p \<notin> prop_name ` set (to_delete ?d)) C"
  obtain t1 where 1: "delete_props ref_server ?cs (to_delete ?d) \<lparr>world = w, trace = tr\<rparr> =
      (Inr (), \<lparr>world = w(i \<mapsto> ?C1), trace = tr @ t1\<rparr>)"
    using delete_props_ref [OF oid sn i okd(1), of "\<lparr>world = w, trace = tr\<rparr>" C] w by auto
  obtain t2 where 2: "create_props ref_server ?cs (to_create ?d) \<lparr>world = w(i \<mapsto> ?C1), trace = tr @ t1\<rparr> =
      (Inr (), \<lparr>world = w(i \<mapsto> ?C1 @ to_create ?d), trace = (tr @ t1) @ t2\<rparr>)"
    using create_props_ref [OF oid sn i okd(2), of "\<lparr>world = w(i \<mapsto> ?C1), trace = tr @ t1\<rparr>" ?C1] by auto
  obtain t3 where 3: "update_props ref_server ?cs (to_update ?d)
      \<lparr>world = w(i \<mapsto> ?C1 @ to_create ?d), trace = (tr @ t1) @ t2\<rparr> =
      (Inr (), \<lparr>world = w(i \<mapsto> patch_all (?C1 @ to_create ?d) (to_update ?d)), trace = ((tr @ t1) @ t2) @ t3\<rparr>)"
    using update_props_ref [OF oid sn i okd(3),
        of "\<lparr>world = w(i \<mapsto> ?C1 @ to_create ?d), trace = (tr @ t1) @ t2\<rparr>" "?C1 @ to_create ?d"] by auto
  have "update_schema ref_server (JObj ufs) (JObj cfs) \<lparr>world = w, trace = tr\<rparr> =
    (Inr ?cs, \<lparr>world = w(i \<mapsto> after_update U C), trace = tr @ (t1 @ t2 @ t3)\<rparr>)"
    using plan 1 2 3 by (simp add: update_schema_def after_update_def Let_def eff_simps)
  then show ?thesis by blast
qed


section \<open>Idempotence\<close>

text \<open>
  C29. Idempotence (spec section 7) for schemas without nested objects: when the
  registry applies the property requests as the spec describes, one run of
  \<open>updateSchema\<close> on well-formed, flat properties with distinct names
  returns normally, and diffing the same file against the registry's new
  property list gives nothing to delete, create or update.
\<close>

theorem update_schema_idempotent:
  assumes "list_all wf_property U" "list_all wf_property C" "arrays_agree U C"
    and "list_all flat_property U" "distinct (map prop_name U)"
    and "list_all (\<lambda>p. slash_free (prop_name p)) U" "list_all (\<lambda>p. slash_free (prop_name p)) C"
    and "CHR ''/'' \<notin> set i" "w i = Some C"
    and "obj_lookup ufs ''properties'' = JArr U"
    and "obj_lookup cfs ''properties'' = JArr C" "obj_lookup cfs ''objectTypeId'' = JStr i"
  shows "\<exists>t C'. update_schema ref_server (JObj ufs) (JObj cfs) \<lparr>world = w, trace = tr\<rparr> =
      (Inr (js_delete (JObj cfs) ''properties''), \<lparr>world = w(i \<mapsto> C'), trace = tr @ t\<rparr>)
    \<and> schema_diff (JArr U) (JArr C') = Inr \<lparr>to_delete = [], to_create = [], to_update = []\<rparr>"
  using update_schema_ref [where w = w and i = i and tr = tr, OF assms(1-3,6-12)]
    after_update_diff [OF assms(1-5)] by blast

theorem update_schema_idempotent_witness:
  "\<exists>t C'. update_schema ref_server (JObj [(''name'', JStr ''deal_x''), (''properties'', JArr ex_local)])
      (JObj [(''name'', JStr ''deal_x''), (''objectTypeId'', JStr ''2-7''), (''properties'', JArr ex_remote)])
      \<lparr>world = [''2-7'' \<mapsto> ex_remote], trace = []\<rparr> =
      (Inr (js_delete (JObj [(''name'', JStr ''deal_x''), (''objectTypeId'', JStr ''2-7''),
          (''properties'', JArr ex_remote)]) ''properties''),
       \<lparr>world = [''2-7'' \<mapsto> ex_remote](''2-7'' \<mapsto> C'), trace = [] @ t\<rparr>)
    \<and> schema_diff (JArr ex_local) (JArr C') = Inr \<lparr>to_delete = [], to_create = [], to_update = []\<rparr>"
proof -
  have h: "list_all wf_property ex_local" "list_all wf_property ex_remote" "arrays_agree ex_local ex_remote"
    "list_all flat_property ex_local" "distinct (map prop_name ex_local)"
    "list_all (\<lambda>p. slash_free (prop_name p)) ex_local" "list_all (\<lambda>p. slash_free (prop_name p)) ex_remote"
    "CHR ''/'' \<notin> set ''2-7''" "[''2-7'' \<mapsto> ex_remote] ''2-7'' = Some ex_remote"
    "obj_lookup [(''name'', JStr ''deal_x''), (''properties'', JArr ex_local)] ''properties'' = JArr ex_local"
    "obj_lookup [(''name'', JStr ''deal_x''), (''objectTypeId'', JStr ''2-7''), (''properties'', JArr ex_remote)]
       ''properties'' = JArr ex_remote"
    "obj_lookup [(''name'', JStr ''deal_x''), (''objectTypeId'', JStr ''2-7''), (''properties'', JArr ex_remote)]
       ''objectTypeId'' = JStr ''2-7''"
    by code_simp+
  show ?thesis
    by (rule update_schema_idempotent [where w = "[''2-7'' \<mapsto> ex_remote]" and i = "''2-7''", OF h])
qed

end
