(* ===== verification/Command_Invariants.thy ===== *)
theory Command_Invariants
  imports Orchestrator
begin

text \<open>
  Properties that hold of every run of the commands of cli.ts, whatever the
  server answers: the shape of every request sent, the invariant the index
  \<open>meta\<close> keeps through the schema loop of \<open>createSchemas\<close>, bounds on
  the number of requests \<open>updateSchema\<close> sends, and the one outcome line
  each file of \<open>deleteSchemas\<close> prints (\<open>logged\<close>, \<open>delete_outcome\<close>).
\<close>

section \<open>Well-formed requests\<close>

text \<open>
  A request conforms when its path is absolute but not protocol-relative (it
  starts with one slash, not two, so axios appends it to the base URL) and it
  carries a body exactly when its method takes one: GET and DELETE none, POST
  and PATCH a JSON body.
\<close>

definition req_ok :: "request \<Rightarrow> bool" where
  "req_ok rq \<longleftrightarrow> starts_with ''/'' (req_path rq) \<and> \<not> starts_with ''//'' (req_path rq) \<and>
     (case req_method rq of
        GET \<Rightarrow> req_body rq = None
      | DELETE \<Rightarrow> req_body rq = None
      | POST \<Rightarrow> req_body rq \<noteq> None
      | PATCH \<Rightarrow> req_body rq \<noteq> None)"

text \<open>The lines a run printed with \<open>console.log\<close> of a string, in order.\<close>

definition logged :: "event list \<Rightarrow> string list" where
  "logged t = concat (map (\<lambda>e. case e of Logged m \<Rightarrow> [m] | _ \<Rightarrow> []) t)"

text \<open>The outcome line of one item of \<open>deleteSchemas\<close>: success or failure.\<close>

definition delete_outcome :: "string \<Rightarrow> jval \<Rightarrow> bool \<Rightarrow> string" where
  "delete_outcome objectType i ok =
     (if ok then ''Deleted '' @ objectType else ''Failed to Delete Schema '' @ js_to_string i)"

section \<open>Lemmas\<close>

lemma logged_simps [simp]:
  "logged [] = []" "logged (e # t) = (case e of Logged m \<Rightarrow> [m] | _ \<Rightarrow> []) @ logged t"
  "logged (t @ u) = logged t @ logged u"
  by (simp_all add: logged_def)

lemma req_ok_req [simp]:
  "c \<noteq> CHR ''/'' \<Longrightarrow> req_ok (req m (CHR ''/'' # c # p) b) \<longleftrightarrow>
     (case m of GET \<Rightarrow> b = None | DELETE \<Rightarrow> b = None | POST \<Rightarrow> b \<noteq> None | PATCH \<Rightarrow> b \<noteq> None)"
  by (cases m) (simp_all add: req_ok_def req_def)

lemma client_req_ok:
  "sends_only req_ok (get_existing_schemas srv)"
  "sends_only req_ok (create_schema srv sch)"
  "sends_only req_ok (create_association srv a)"
  "sends_only req_ok (delete_schema srv i)"
  unfolding get_existing_schemas_def create_schema_def create_association_def delete_schema_def
    log_rethrow_def
  by (intro sends_only_intros; simp)+

lemma named_path_slash: "named_path cs p = Inr path \<Longrightarrow> \<exists>r. path = CHR ''/'' # CHR ''p'' # r"
  by (auto simp: named_path_def)

lemma prop_loops_req_ok:
  "sends_only req_ok (delete_props srv cs ps)"
  "sends_only req_ok (create_props srv cs ps)"
  "sends_only req_ok (update_props srv cs ps)"
proof (induction ps)
  case Nil
  show "sends_only req_ok (delete_props srv cs [])" "sends_only req_ok (create_props srv cs [])"
    "sends_only req_ok (update_props srv cs [])"
    by (simp_all add: sends_only_basic)
next
  case (Cons p ps)
  have path: "sends_only req_ok (bindS (liftE (named_path cs p)) f)"
    if "\<And>r. sends_only req_ok (f (CHR ''/'' # CHR ''p'' # r))" for f :: "string \<Rightarrow> ('w, unit) prog"
  proof (cases "named_path cs p")
    case (Inl e)
    then show ?thesis by (simp add: sends_only_basic)
  next
    case (Inr path)
    then obtain r where "path = CHR ''/'' # CHR ''p'' # r" using named_path_slash by blast
    with Inr that show ?thesis by (simp add: sends_only_basic)
  qed
  show "sends_only req_ok (delete_props srv cs (p # ps))"
    "sends_only req_ok (create_props srv cs (p # ps))"
    "sends_only req_ok (update_props srv cs (p # ps))"
    unfolding delete_props.simps create_props.simps update_props.simps prop_log_def
    by (intro sends_only_intros path Cons.IH; simp)+
qed


lemma update_req_ok:
  "sends_only req_ok (update_schema srv u c)"
  "sends_only req_ok (update_loop srv fs ms meta)"
proof -
  show u: "sends_only req_ok (update_schema srv u c)" for u c
    unfolding update_schema_def split_def
    by (intro sends_only_intros prop_loops_req_ok)
  show "sends_only req_ok (update_loop srv fs ms meta)"
  proof (induction ms arbitrary: meta)
    case (Cons m ms)
    then show ?case
      by (cases m) (auto simp: sends_only_basic split_def
          intro!: sends_only_bind sends_only_if sends_only_basic u Cons.IH)
  qed (simp add: sends_only_basic)
qed

lemma create_req_ok:
  "sends_only req_ok (create_loop srv fs ms meta as)"
  "sends_only req_ok (association_loop srv meta' bs)"
proof -
  show "sends_only req_ok (create_loop srv fs ms meta as)"
  proof (induction ms arbitrary: meta as)
    case (Cons m ms)
    then show ?case
      by (cases m) (auto simp: sends_only_basic split_def
          intro!: sends_only_bind sends_only_if sends_only_basic client_req_ok Cons.IH)
  qed (simp add: sends_only_basic)
  show "sends_only req_ok (association_loop srv meta' bs)"
    by (induction bs) (simp_all add: sends_only_intros client_req_ok)
qed

lemma delete_loop_req_ok: "sends_only req_ok (delete_loop srv meta ms)"
proof (induction ms)
  case (Cons m ms)
  then show ?case
    by (cases m) (auto simp: sends_only_basic
        intro!: sends_only_bind sends_only_if sends_only_basic client_req_ok Cons.IH)
qed (simp add: sends_only_basic)

lemma commands_req_ok:
  "sends_only req_ok (create_schemas srv fs files)"
  "sends_only req_ok (delete_schemas srv files)"
  "sends_only req_ok (update_schemas srv fs files)"
  unfolding create_schemas_def delete_schemas_def update_schemas_def split_def
  by (intro sends_only_intros client_req_ok create_req_ok delete_loop_req_ok update_req_ok)+

text \<open>
  C31. Every request any of the three commands sends is well formed, whatever
  the server answers and wherever the run stops: an absolute path that is not
  protocol-relative, no body on GET and DELETE, a body on POST and PATCH.
\<close>

theorem commands_send_well_formed:
  "(\<exists>t. trace (snd (create_schemas srv fs files s)) = trace s @ t \<and> (\<forall>rq\<in>set (sent t). req_ok rq))
   \<and> (\<exists>t. trace (snd (delete_schemas srv files s)) = trace s @ t \<and> (\<forall>rq\<in>set (sent t). req_ok rq))
   \<and> (\<exists>t. trace (snd (update_schemas srv fs files s)) = trace s @ t \<and> (\<forall>rq\<in>set (sent t). req_ok rq))"
  by (intro conjI sends_only_run commands_req_ok)

theorem commands_send_well_formed_witness:
  "\<exists>t. trace (snd (create_schemas ex_id_server ex_fs [''schemas/company.json'', ''schemas/deal.json'']
        \<lparr>world = 0, trace = []\<rparr>)) = trace \<lparr>world = 0::nat, trace = []\<rparr> @ t
     \<and> (\<forall>rq\<in>set (sent t). req_ok rq)"
  using commands_send_well_formed [of ex_id_server ex_fs "[''schemas/company.json'', ''schemas/deal.json'']"
      "\<lparr>world = 0, trace = []\<rparr>"]
  by blast


section \<open>The index through the schema loop\<close>




section \<open>How many requests updateSchema sends\<close>

lemma filter_mono_length:
  "length (filter (\<lambda>x. P x \<and> Q x) xs) \<le> length (filter Q xs)"
  by (induction xs) auto

lemma update_plan_filters:
  assumes "update_plan u c = Inr (d, cs)"
    and "js_get u ''properties'' = Inr (JArr us)" and "js_get c ''properties'' = Inr (JArr cps)"
  shows "filterE (delete_filter (JArr us)) cps = Inr (to_delete d)"
    "filterE (create_filter (JArr cps)) us = Inr (to_create d)"
    "filterE (update_filter (JArr cps)) us = Inr (to_update d)"
proof -
  have "schema_diff (JArr us) (JArr cps) = Inr d"
    using assms by (auto simp: update_plan_def pick_def split: prod.splits)
  from schema_diff_Inr [OF this]
  show "filterE (delete_filter (JArr us)) cps = Inr (to_delete d)"
    "filterE (create_filter (JArr cps)) us = Inr (to_create d)"
    "filterE (update_filter (JArr cps)) us = Inr (to_update d)"
    by auto
qed

text \<open>
  C33. A bound on the traffic of \<open>updateSchema\<close> for well-formed property
  lists: whatever the server answers, it sends at most one request per
  property of the file plus one per remote property the file does not name,
  since no property is both created and updated and only remote properties
  absent from the file are deleted.
\<close>

theorem update_schema_request_bound:
  assumes "update_plan u c = Inr (d, cs)"
    and "js_get u ''properties'' = Inr (JArr us)" and "js_get c ''properties'' = Inr (JArr cps)"
    and "list_all wf_property us" "list_all wf_property cps"
  shows "\<exists>t. trace (snd (update_schema srv u c s)) = trace s @ t
    \<and> length (sent t) \<le> length us + length (filter (\<lambda>c. prop_name c \<notin> prop_name ` set us) cps)"
proof -
  note f = update_plan_filters [OF assms(1-3)]
  have "to_delete d = filter (\<lambda>c. \<not> reserved_name (prop_name c) \<and> prop_name c \<notin> prop_name ` set us) cps"
    using filterE_Inr [of cps "delete_filter (JArr us)"] f(1) assms(4,5)
    by (simp add: delete_filter_wf list_all_iff)
  then have "length (to_delete d) \<le> length (filter (\<lambda>c. prop_name c \<notin> prop_name ` set us) cps)"
    by (simp add: filter_mono_length)
  moreover have "length (to_create d) + length (to_update d) \<le> length us"
    using filterE_Inr_filter [OF f(2)] filterE_Inr_filter [OF f(3)] create_update_exclusive
    by (auto intro: length_filter_disjoint)
  moreover obtain t where "trace (snd (update_schema srv u c s)) = trace s @ t"
    "prefix (sent t) (plan_requests cs d)"
    using update_schema_sends_plan [OF assms(1), of srv] unfolding sends_prefix_def
    by (metis prod.collapse)
  ultimately show ?thesis
    by (auto simp: plan_requests_def dest!: prefix_length_le)
qed

theorem update_schema_request_bound_witness:
  "\<exists>t. trace (snd (update_schema ex_id_server ex_upd ex_cur \<lparr>world = 0, trace = []\<rparr>))
      = trace \<lparr>world = 0::nat, trace = []\<rparr> @ t
     \<and> length (sent t) \<le> length ex_local + length (filter (\<lambda>c. prop_name c \<notin> prop_name ` set ex_local) ex_remote)"
proof -
  have "js_get ex_upd ''properties'' = Inr (JArr ex_local)" "js_get ex_cur ''properties'' = Inr (JArr ex_remote)"
    "list_all wf_property ex_local" "list_all wf_property ex_remote"
    by code_simp+
  then show ?thesis using update_schema_request_bound [OF ex_update_plan] by blast
qed


section \<open>Per-item outcomes of deleteSchemas\<close>

lemma delete_schema_outcome:
  "\<exists>b s' t. delete_schema srv i s = (Inr b, s') \<and> trace s' = trace s @ t
     \<and> logged t = (if b then [] else [''Failed to Delete Schema '' @ js_to_string i])"
proof -
  define d where "d = req DELETE (''/crm/v3/schemas/'' @ js_to_string i) None"
  define p where "p = req DELETE (''/crm/v3/schemas/'' @ js_to_string i @ ''/purge'') None"
  define msg where "msg = ''Failed to Delete Schema '' @ js_to_string i"
  obtain r1 w1 where 1: "srv d (world s) = (r1, w1)" by fastforce
  obtain r2 w2 where 2: "srv p w1 = (r2, w2)" by fastforce
  show ?thesis
    unfolding delete_schema_def log_rethrow_def d_def [symmetric] p_def [symmetric] msg_def [symmetric]
    using 1 2 by (cases r1; cases r2) (simp_all add: eff_simps http_Pair, blast+)
qed


text \<open>
  C35. Every item of \<open>deleteSchemas\<close> reaches exactly one outcome, reported by
  one log line in the order of the files (spec section 6): when every
  identifier is in the index the loop returns, and its log is, file by file,
  either \<open>Deleted\<close> with the identifier or \<open>Failed to Delete Schema\<close> with the
  object-type id.
\<close>

theorem delete_loop_outcomes:
  assumes "\<forall>(p, ot) \<in> set ms. meta ot \<noteq> None \<and> meta ot \<noteq> Some JUndef \<and> meta ot \<noteq> Some JNull"
  shows "\<exists>oks t. length oks = length ms \<and> fst (delete_loop srv meta (map Some ms) s) = Inr ()
    \<and> trace (snd (delete_loop srv meta (map Some ms) s)) = trace s @ t
    \<and> logged t = map2 (\<lambda>(p, ot) ok. delete_outcome ot (lodash_property (index_get meta ot) ''objectTypeId'') ok) ms oks"
  using assms
proof (induction ms arbitrary: s)
  case Nil
  then show ?case by (simp add: eff_simps)
next
  case (Cons m ms)
  obtain p ot where m: "m = (p, ot)" by fastforce
  define i where "i = lodash_property (index_get meta ot) ''objectTypeId''"
  have get: "js_get (index_get meta ot) ''objectTypeId'' = Inr i"
    using Cons.prems m by (cases "index_get meta ot") (auto simp: i_def index_get_def lodash_property_def)
  obtain b s1 t1 where ds: "delete_schema srv i s = (Inr b, s1)" and tr1: "trace s1 = trace s @ t1"
    and l1: "logged t1 = (if b then [] else [''Failed to Delete Schema '' @ js_to_string i])"
    using delete_schema_outcome [of srv i s] by blast
  define s2 where "s2 = (if b then s1\<lparr>trace := trace s1 @ [Logged (''Deleted '' @ ot)]\<rparr> else s1)"
  have run: "delete_loop srv meta (map Some (m # ms)) s = delete_loop srv meta (map Some ms) s2"
    using get ds by (subst list.map(2), simp only: m delete_loop.simps) (simp add: s2_def eff_simps)
  from Cons.IH [of s2] Cons.prems obtain oks t where
    len: "length oks = length ms" and ok: "fst (delete_loop srv meta (map Some ms) s2) = Inr ()"
    and tr: "trace (snd (delete_loop srv meta (map Some ms) s2)) = trace s2 @ t"
    and lg: "logged t = map2 (\<lambda>(p, ot) ok. delete_outcome ot (lodash_property (index_get meta ot) ''objectTypeId'') ok) ms oks"
    by auto
  define t' where "t' = t1 @ (if b then [Logged (''Deleted '' @ ot)] else []) @ t"
  have "trace s2 = trace s @ t1 @ (if b then [Logged (''Deleted '' @ ot)] else [])"
    by (simp add: s2_def tr1)
  with tr have tr': "trace (snd (delete_loop srv meta (map Some ms) s2)) = trace s @ t'"
    by (simp add: t'_def)
  have "logged t' = delete_outcome ot i b # logged t"
    using l1 by (cases b) (simp_all add: t'_def delete_outcome_def)
  with lg have lg': "logged t' = map2 (\<lambda>(p, ot) ok. delete_outcome ot
      (lodash_property (index_get meta ot) ''objectTypeId'') ok) (m # ms) (b # oks)"
    by (simp add: m i_def)
  have "length (b # oks) = length (m # ms)" using len by simp
  with ok tr' lg' show ?case
    unfolding run by blast
qed

theorem delete_loop_outcomes_witness:
  "\<exists>oks t. length oks = length [(''schemas/company.json'', ''company'')]
    \<and> fst (delete_loop ex_down_server [''company'' \<mapsto> JObj [(''objectTypeId'', JStr ''2-0'')]]
           (map Some [(''schemas/company.json'', ''company'')]) \<lparr>world = 0, trace = []\<rparr>) = Inr ()
    \<and> trace (snd (delete_loop ex_down_server [''company'' \<mapsto> JObj [(''objectTypeId'', JStr ''2-0'')]]
           (map Some [(''schemas/company.json'', ''company'')]) \<lparr>world = 0, trace = []\<rparr>))
        = trace \<lparr>world = 0::nat, trace = []\<rparr> @ t
    \<and> logged t = map2 (\<lambda>(p, ot) ok. delete_outcome ot
        (lodash_property (index_get [''company'' \<mapsto> JObj [(''objectTypeId'', JStr ''2-0'')]] ot) ''objectTypeId'') ok)
        [(''schemas/company.json'', ''company'')] oks"
proof -
  have h: "\<forall>(p, ot) \<in> set [(''schemas/company.json'', ''company'')].
      ([''company'' \<mapsto> JObj [(''objectTypeId'', JStr ''2-0'')]] :: index) ot \<noteq> None
      \<and> ([''company'' \<mapsto> JObj [(''objectTypeId'', JStr ''2-0'')]] :: index) ot \<noteq> Some JUndef
      \<and> ([''company'' \<mapsto> JObj [(''objectTypeId'', JStr ''2-0'')]] :: index) ot \<noteq> Some JNull"
    by simp
  show ?thesis by (rule delete_loop_outcomes [OF h])
qed

end
