(* ===== verification/Cli.thy ===== *)
theory Cli
  imports Command_Invariants
begin

text \<open>
  The entry point of cli.ts: \<open>readJSON\<close> (lines 21--22) and the three
  commander registrations with \<open>program.parse()\<close> (lines 225--229).
  \<^item> \<open>read_json\<close>: \<open>JSON.parse(readFileSync(filePath, "utf8"))\<close>, with the file
    system and the JSON parser as parameters that may throw.
  \<^item> \<open>cli_dispatch\<close>: which action \<open>program.parse()\<close> runs for the operands
    \<open>process.argv.slice(2)\<close>. A command name with its \<open><glob>\<close> operand runs
    that action on the operand. An operand that starts with \<open>-\<close> is an option,
    which the program does not declare, and a missing or unknown command name
    runs no action (commander prints an error or the help). Operands after the
    glob are ignored, as commander does by default before version 13.
  \<^item> \<open>run_cli\<close>: the action, with \<open>glob.sync\<close> as a parameter \<open>glob_sync\<close>
    and the files read by \<open>read_json\<close>.
  \<^item> \<open>dotenv_config\<close>, \<open>hs_config\<close>, \<open>request_url\<close>: the configuration of
    lines 12--19 and the URL axios builds from it for each request.
\<close>

definition read_json :: "(string \<Rightarrow> error + string) \<Rightarrow> (string \<Rightarrow> error + jval) \<Rightarrow> string \<Rightarrow> error + jval" where
  "read_json read_file json_parse filePath = bindE (read_file filePath) json_parse"

datatype cli_command = Create string | Delete string | Update string

fun cli_dispatch :: "string list \<Rightarrow> cli_command option" where
  "cli_dispatch (c # g # rest) =
     (if list_ex (starts_with ''-'') (c # g # rest) then None
      else if c = ''create'' then Some (Create g)
      else if c = ''delete'' then Some (Delete g)
      else if c = ''update'' then Some (Update g)
      else None)"
| "cli_dispatch args = None"

definition run_cli :: "'w server \<Rightarrow> (string \<Rightarrow> string list) \<Rightarrow> (string \<Rightarrow> error + string)
    \<Rightarrow> (string \<Rightarrow> error + jval) \<Rightarrow> string list \<Rightarrow> ('w, unit) prog" where
  "run_cli srv glob_sync read_file json_parse args =
     (case cli_dispatch args of
        Some (Create g) \<Rightarrow> create_schemas srv (read_json read_file json_parse) (glob_sync g)
      | Some (Delete g) \<Rightarrow> delete_schemas srv (glob_sync g)
      | Some (Update g) \<Rightarrow> update_schemas srv (read_json read_file json_parse) (glob_sync g)
      | None \<Rightarrow> returnS ())"

section \<open>Configuration: dotenv and the axios instance hs\<close>

text \<open>
  \<open>config()\<close> (line 12) loads the parsed \<open>.env\<close> file into \<open>process.env\<close>,
  keeping every variable the process already has; the parser is outside the
  program, so the parsed file is a parameter (empty when there is none).
\<close>

definition dotenv_config :: "(string \<rightharpoonup> string) \<Rightarrow> (string \<rightharpoonup> string) \<Rightarrow> (string \<rightharpoonup> string)" where
  "dotenv_config processEnv parsed = (\<lambda>k. case processEnv k of Some v \<Rightarrow> Some v | None \<Rightarrow> parsed k)"

definition process_env_get :: "(string \<rightharpoonup> string) \<Rightarrow> string \<Rightarrow> jval" where
  "process_env_get env k = (case env k of Some v \<Rightarrow> JStr v | None \<Rightarrow> JUndef)"

text \<open>The instance of lines 14--19: a base URL and one query parameter.\<close>

record axios_config =
  baseURL :: string
  params :: "(string \<times> jval) list"

definition hs_config :: "(string \<rightharpoonup> string) \<Rightarrow> axios_config" where
  "hs_config env =
     \<lparr>baseURL = ''https://api.hubapi.com/'', params = [(''hapikey'', process_env_get env ''API_KEY'')]\<rparr>"

text \<open>
  What the instance does with the path of each call, as axios builds the URL
  it requests: \<open>buildFullPath\<close> joins the base URL and the path unless the
  path is absolute (\<open>isAbsoluteURL\<close>, the expression
  \<open>^([a-z][a-z\d+\-.]*:)?//\<close> without case), \<open>combineURLs\<close> drops one or two
  trailing slashes of the base (\<open>/\/?\/$/\<close>) and the leading slashes of the
  path, and \<open>buildURL\<close> serialises the parameters that are neither
  \<open>undefined\<close> nor \<open>null\<close> as \<open>key=value\<close> joined by \<open>&\<close>, cuts the URL at a
  \<open>#\<close> and appends them after \<open>?\<close>, or \<open>&\<close> when the URL has a query. The
  encoder (\<open>encodeURIComponent\<close> with the version's exceptions) is a
  parameter \<open>enc\<close>.
\<close>

definition is_alpha :: "char \<Rightarrow> bool" where
  "is_alpha c \<longleftrightarrow> char_in 97 122 c \<or> char_in 65 90 c"

definition is_scheme_char :: "char \<Rightarrow> bool" where
  "is_scheme_char c \<longleftrightarrow>
     is_alpha c \<or> char_in 48 57 c \<or> c = CHR ''+'' \<or> c = CHR ''-'' \<or> c = CHR ''.''"

definition is_absolute_url :: "string \<Rightarrow> bool" where
  "is_absolute_url u \<longleftrightarrow> starts_with ''//'' u \<or>
     (u \<noteq> [] \<and> is_alpha (hd u) \<and> starts_with ''://'' (dropWhile is_scheme_char (tl u)))"

definition strip_end_slashes :: "string \<Rightarrow> string" where
  "strip_end_slashes b =
     (if starts_with ''//'' (rev b) then rev (drop 2 (rev b))
      else if starts_with ''/'' (rev b) then butlast b else b)"

definition combine_urls :: "string \<Rightarrow> string \<Rightarrow> string" where
  "combine_urls base relativeURL =
     (if relativeURL = [] then base
      else strip_end_slashes base @ ''/'' @ dropWhile (\<lambda>c. c = CHR ''/'') relativeURL)"

definition build_full_path :: "string \<Rightarrow> string \<Rightarrow> string" where
  "build_full_path base requestedURL =
     (if base \<noteq> [] \<and> \<not> is_absolute_url requestedURL then combine_urls base requestedURL
      else requestedURL)"

definition serialize_params :: "(string \<Rightarrow> string) \<Rightarrow> (string \<times> jval) list \<Rightarrow> string" where
  "serialize_params enc ps =
     join_sep ''&'' (map (\<lambda>(k, v). enc k @ ''='' @ enc (js_to_string v))
       (filter (\<lambda>(k, v). v \<noteq> JUndef \<and> v \<noteq> JNull) ps))"

definition build_url :: "(string \<Rightarrow> string) \<Rightarrow> string \<Rightarrow> (string \<times> jval) list \<Rightarrow> string" where
  "build_url enc url ps =
     (let sp = serialize_params enc ps in
      if sp = [] then url
      else (let u = takeWhile (\<lambda>c. c \<noteq> CHR ''#'') url in
            u @ (if CHR ''?'' \<in> set u then ''&'' else ''?'') @ sp))"

definition request_url :: "(string \<Rightarrow> string) \<Rightarrow> axios_config \<Rightarrow> request \<Rightarrow> string" where
  "request_url enc cfg rq = build_url enc (build_full_path (baseURL cfg) (req_path rq)) (params cfg)"

section \<open>Lemmas\<close>

lemma req_ok_path: "req_ok rq \<Longrightarrow> \<exists>r. req_path rq = CHR ''/'' # r \<and> \<not> starts_with ''/'' r"
  unfolding req_ok_def by (auto simp: starts_with_iff)

lemma hs_full_path:
  assumes "\<not> starts_with ''/'' r"
  shows "build_full_path ''https://api.hubapi.com/'' (CHR ''/'' # r) = ''https://api.hubapi.com/'' @ r"
proof -
  have "\<not> is_absolute_url (CHR ''/'' # r)"
    using assms by (simp add: is_absolute_url_def is_alpha_def char_in_def)
  moreover have "dropWhile (\<lambda>c. c = CHR ''/'') r = r"
    using assms by (cases r) auto
  moreover have "strip_end_slashes ''https://api.hubapi.com/'' = ''https://api.hubapi.com''"
    by code_simp
  ultimately show ?thesis by (simp add: build_full_path_def combine_urls_def)
qed

lemma build_url_prefix:
  assumes "CHR ''#'' \<notin> set b" "CHR ''?'' \<notin> set b"
  shows "build_url enc (b @ x) ps = b @ build_url enc x ps"
proof -
  have "takeWhile (\<lambda>c. c \<noteq> CHR ''#'') (b @ x) = b @ takeWhile (\<lambda>c. c \<noteq> CHR ''#'') x"
    using assms(1) by (intro takeWhile_append2) auto
  then show ?thesis using assms(2) by (simp add: build_url_def Let_def)
qed

lemma hs_request_url:
  assumes "req_ok rq"
  shows "request_url enc (hs_config env) rq =
    ''https://api.hubapi.com/'' @ build_url enc (tl (req_path rq)) [(''hapikey'', process_env_get env ''API_KEY'')]"
proof -
  obtain r where r: "req_path rq = CHR ''/'' # r" "\<not> starts_with ''/'' r"
    using req_ok_path [OF assms] by blast
  have "request_url enc (hs_config env) rq =
      build_url enc (''https://api.hubapi.com/'' @ r) [(''hapikey'', process_env_get env ''API_KEY'')]"
    unfolding request_url_def hs_config_def axios_config.simps r(1) hs_full_path [OF r(2)] ..
  also have "\<dots> = ''https://api.hubapi.com/'' @ build_url enc r [(''hapikey'', process_env_get env ''API_KEY'')]"
    by (rule build_url_prefix) simp_all
  finally show ?thesis using r(1) by simp
qed

lemma run_cli_req_ok: "sends_only req_ok (run_cli srv glob_sync rf jp args)"
  unfolding run_cli_def
  by (auto split: option.split cli_command.split intro: commands_req_ok sends_only_basic)

text \<open>Without \<open>API_KEY\<close> in the environment or in \<open>.env\<close>, the parameter is
  \<open>undefined\<close> and the URL carries no key at all.\<close>

lemma hs_without_api_key:
  "process_env_get (dotenv_config processEnv parsed) ''API_KEY'' = JUndef \<longleftrightarrow>
     processEnv ''API_KEY'' = None \<and> parsed ''API_KEY'' = None"
  "build_url enc u [(''hapikey'', JUndef)] = u"
  by (auto simp: process_env_get_def dotenv_config_def build_url_def serialize_params_def
      split: option.splits)


text \<open>The paths are template literals, not encoded: a property name with a
  \<open>#\<close> loses the rest of its name, since axios cuts the URL at the \<open>#\<close>
  before it appends the key, and the request names another property.\<close>

lemma hs_fragment_truncates:
  "request_url id (hs_config [''API_KEY'' \<mapsto> ''k''])
     (req PATCH ''/properties/v2/2-0/properties/named/a#b'' (Some (JObj [])))
   = ''https://api.hubapi.com/properties/v2/2-0/properties/named/a?hapikey=k''"
  by code_simp

section \<open>Properties\<close>

text \<open>
  C36. Every request a run of the program sends, whichever command runs, goes
  to the configured host: axios builds its URL as
  \<open>https://api.hubapi.com/\<close> followed by the path without its slash and the
  \<open>hapikey\<close> query of \<open>API_KEY\<close> (from the environment, else from
  \<open>.env\<close>). No path the program builds is protocol-relative, so the key is
  sent to no other host.
\<close>

theorem hs_requests_on_base_url:
  "\<exists>t. trace (snd (run_cli srv glob_sync rf jp args s)) = trace s @ t
     \<and> (\<forall>rq\<in>set (sent t). request_url enc (hs_config (dotenv_config processEnv parsed)) rq =
          ''https://api.hubapi.com/'' @ build_url enc (tl (req_path rq))
            [(''hapikey'', process_env_get (dotenv_config processEnv parsed) ''API_KEY'')])"
  by (rule sends_only_run, rule sends_only_mono [OF run_cli_req_ok], erule hs_request_url)

theorem hs_requests_on_base_url_witness:
  "\<exists>t. trace (snd (run_cli ex_id_server (\<lambda>g. [''schemas/deal.json'']) (\<lambda>p. Inl FsError)
        (\<lambda>t. Inl SyntaxError) [''delete'', ''schemas/*.json''] \<lparr>world = 0, trace = []\<rparr>))
        = trace \<lparr>world = 0::nat, trace = []\<rparr> @ t
     \<and> (\<forall>rq\<in>set (sent t). request_url id (hs_config (dotenv_config Map.empty [''API_KEY'' \<mapsto> ''k''])) rq =
          ''https://api.hubapi.com/'' @ build_url id (tl (req_path rq))
            [(''hapikey'', process_env_get (dotenv_config Map.empty [''API_KEY'' \<mapsto> ''k'']) ''API_KEY'')])"
  by (rule hs_requests_on_base_url)

end
