(* ===== verification/Spec2Isabelle.thy ===== *)
theory Spec2Isabelle
  imports Registry Command_Invariants Cli
begin

text \<open>
  \<^bold>\<open>A verification library for custom-object-manager (src/src/cli.ts).\<close>

  The program is one TypeScript file, a command-line tool with three commands
  (\<open>create\<close>, \<open>delete\<close>, \<open>update\<close> of a glob of schema files) that keeps
  custom-object schemas of a CRM in line with local JSON files. Its parts:
  the remote client (calls of the axios instance \<open>hs\<close>, lines 14--66), the
  local loader (\<open>objectTypeRegex\<close>, \<open>readJSON\<close>, \<open>pick\<close>, lines 10, 21,
  68--72, 85--91), the reconciliation engine (the diff of \<open>updateSchema\<close>,
  lines 133--176), the association resolver (lodash \<open>get\<close>, lines 103--117)
  and the orchestrator (\<open>createSchemas\<close>, \<open>deleteSchemas\<close>,
  \<open>updateSchemas\<close> and the request loops of \<open>updateSchema\<close>). The
  orchestrator fetches the index of remote schemas, matches each path, reads
  the file and calls the client; \<open>update\<close> runs the engine first.

  \<^bold>\<open>Theories.\<close>
  \<^item> \<open>Prelude\<close>: the error sum \<open>'e + 'a\<close> with \<open>bindE\<close>/\<open>mapE\<close>, the array
    callbacks that may throw (\<open>filterE\<close>, \<open>findE\<close>, \<open>allE\<close>), and the
    state-exception monad \<open>('s,'e,'a) eff\<close> (\<open>returnS\<close>, \<open>throwS\<close>,
    \<open>bindS\<close>, \<open>catchS\<close>), the shape of an \<open>async\<close> function with
    \<open>try/catch\<close>; its rules are collected in \<open>eff_simps\<close>.
  \<^item> \<open>Js_Value\<close>: JavaScript values (\<open>jval\<close>) and the semantics the program
    relies on: \<open>===\<close> (\<open>js_seq\<close>), truthiness, property access that throws on
    \<open>undefined\<close>/\<open>null\<close>, \<open>Object.keys\<close> order, \<open>filter\<close>/\<open>find\<close>/\<open>every\<close>,
    \<open>includes\<close>, template literals, and the program's \<open>pick\<close>.
  \<^item> \<open>Reconcile\<close>: \<open>shouldContainAll\<close>, \<open>validateOptions\<close> and the three
    filters of \<open>updateSchema\<close> as \<open>should_contain_all\<close>,
    \<open>validate_options\<close>, \<open>delete_filter\<close>, \<open>create_filter\<close>,
    \<open>update_filter\<close> (with \<open>property_changed\<close>, the \<open>Object.keys\<close> reduce);
    \<open>schema_diff\<close> the diff, \<open>update_plan\<close> the two \<open>pick\<close>s before it. The
    section on the abstract specification states the diff the spec asks for
    (\<open>spec_diff\<close>, over label/value pairs and names).
  \<^item> \<open>Remote_Client\<close>: the state \<open>'w rt\<close> (the server's world and the trace of
    requests and log lines), the server as a parameter \<open>'w server\<close>, one
    definition per client function (\<open>get_existing_schemas\<close>,
    \<open>create_schema\<close>, \<open>create_association\<close>, \<open>delete_schema\<close>), lodash
    \<open>keyBy\<close> (\<open>key_by_name\<close>), and a calculus of the requests a run sends
    (\<open>sends_prefix\<close>, \<open>sends_exactly\<close>, \<open>sends_only\<close>, \<open>sends_then\<close>) with
    composition lemmas for \<open>bindS\<close> and \<open>catchS\<close>.
  \<^item> \<open>Schema_Loader\<close>: \<open>x.match(objectTypeRegex)\<close> as
    \<open>object_type_match\<close> (leftmost match, greedy quantifiers tried longest
    first) and the association objects of lines 85--91.
  \<^item> \<open>Orchestrator\<close>: \<open>update_schema\<close>, \<open>update_schemas\<close>,
    \<open>create_schemas\<close>, \<open>delete_schemas\<close>, each loop over the files a
    \<open>fun\<close> over the list of matches; \<open>plan_requests\<close>, the requests a diff
    calls for; example inputs (\<open>ex_id_server\<close>, \<open>ex_fs\<close>, \<open>ex_upd\<close>,
    \<open>ex_cur\<close>, and the servers \<open>ex_reject_server\<close>, which rejects every
    request but the index fetch, and \<open>ex_down_server\<close>, which fails every
    request) at which the theorems' witnesses are evaluated.
  \<^item> \<open>Registry\<close>: a reference model of the registry's property endpoints
    (\<open>ref_server\<close>, over a world mapping object-type identifiers to property
    lists), as spec section 5 describes them, and the state of the registry
    after one \<open>updateSchema\<close> (\<open>after_update\<close>). It is no part of the
    program: it states what "the first run's changes were applied" means in
    the spec's idempotence property.
  \<^item> \<open>Command_Invariants\<close>: properties of every run of the commands:
    the shape of every request sent (\<open>req_ok\<close>, proved through
    \<open>sends_only\<close> for each client function and loop), the invariant of the
    index \<open>meta\<close> through the schema loop of \<open>createSchemas\<close>, and a bound
    on the number of requests \<open>updateSchema\<close> sends, and the log lines of
    \<open>deleteSchemas\<close> (\<open>logged\<close>, the \<open>console.log\<close> lines of a trace;
    \<open>delete_outcome\<close>, the line an item ends with).
  \<^item> \<open>Cli\<close>: \<open>readJSON\<close> (\<open>read_json\<close>, lines 21--22) and the commander
    registrations with \<open>program.parse()\<close> (\<open>cli_dispatch\<close>, \<open>run_cli\<close>,
    lines 225--229), with \<open>glob.sync\<close>, the file read and \<open>JSON.parse\<close> as
    parameters; the configuration of lines 12--19: dotenv's \<open>config()\<close>
    (\<open>dotenv_config\<close>), the instance \<open>hs\<close> (\<open>hs_config\<close>, a record of base URL
    and parameters) and the URL axios requests for each call
    (\<open>request_url\<close>: \<open>buildFullPath\<close>, \<open>isAbsoluteURL\<close>, \<open>combineURLs\<close>,
    \<open>buildURL\<close>).

  \<^bold>\<open>What is proved.\<close>
  \<^item> The engine refines its specification on well-formed input
    (\<open>Reconcile.schema_diff_refines_spec\<close>). Reserved properties are never
    deleted, the three lists partition the properties, unchanged properties
    are not updated, and \<open>validateOptions\<close> is set equality on option lists,
    symmetric and reflexive. The reduce is short-circuit evaluation.
  \<^item> The engine's edge cases: \<open>includes\<close> protects names with \<open>hs_\<close>
    anywhere; arrays of primitives always compare equal; an array against a
    non-array throws; a field holding an object always compares changed, so
    \<open>update\<close> is not idempotent on schemas with nested objects.
  \<^item> The client: \<open>deleteSchema\<close> is a two-step delete that never throws,
    \<open>createSchema\<close> never throws.
  \<^item> The orchestrator: the order of the requests of \<open>updateSchema\<close> (DELETE,
    then POST, then PATCH, a prefix of the plan wherever the server fails).
    The two phases of \<open>createSchemas\<close>; the association loop posts every
    association, for any server, with both ends resolved through the index the
    schema loop left (\<open>Orchestrator.association_loop_resolves\<close>). Scenario 1
    (skip with a log) and Scenario 5 (unhandled lookup). The crash on a second
    file with the same identifier. A file that cannot be read or parsed ends
    \<open>createSchemas\<close> with that error after the earlier files' schemas were
    posted, and before any association (\<open>Orchestrator.create_schemas_read_error\<close>).
  \<^item> Batch behaviour. The schema loop of \<open>createSchemas\<close> and the loop of
    \<open>deleteSchemas\<close> return normally whatever the server answers, sending
    every file's request in order, and so does the PATCH loop of
    \<open>updateSchema\<close>. When every schema creation fails the index is left as
    fetched, so the associations are still posted, with new schemas' names
    unresolved (\<open>Orchestrator.create_loop_rejected_keeps_index\<close>). A failed
    property DELETE, by contrast, ends
    the whole \<open>update\<close> run, against the spec's rule that per-item failures
    never abort a batch.
  \<^item> Idempotence: against the reference registry, \<open>updateSchema\<close> on
    well-formed, flat properties with distinct names leaves a registry whose
    diff with the same file is empty (\<open>Registry.update_schema_idempotent\<close>).
  \<^item> The loader: the round trip of the regular expression on well-shaped
    paths, and, for every path with a prefix that ends outside
    \<open>[/a-zA-Z0-9]\<close> and has no slash, that the program reads the path without
    that prefix, because it uses \<open>match[0]\<close>
    (\<open>Schema_Loader.object_type_match_prefix_dropped\<close>).
  \<^item> Every run: every request the three commands send is well formed
    (absolute path, a body exactly on POST and PATCH); the schema loop keeps
    every index entry or replaces it by \<open>{objectTypeId}\<close> with a truthy
    identifier; \<open>updateSchema\<close> sends at most one request per property of the
    file plus one per remote property the file does not name; when every
    file's identifier is in the index, the loop of \<open>deleteSchemas\<close> returns
    and prints exactly one outcome line per file, in file order,
    \<open>Deleted\<close> or \<open>Failed to Delete Schema\<close>
    (\<open>Command_Invariants.delete_loop_outcomes\<close>).
  \<^item> The entry point and configuration: every request of every run goes to
    \<open>https://api.hubapi.com/\<close> with the path and the \<open>hapikey\<close> query
    (\<open>Cli.hs_requests_on_base_url\<close>): no path is protocol-relative, so the
    key reaches no other host; without \<open>API_KEY\<close> the URL carries no key.

  \<^bold>\<open>Bounds, fuel and termination.\<close> There is no fuel. The program's own
  loops run over finite lists (files, properties, keys, options), so they are
  structurally recursive \<open>fun\<close>s or folds, total and executable, and the
  commands terminate by construction; the search of \<open>x.match\<close> over start
  positions is the recursion of \<open>object_type_match\<close> over the suffixes of
  the path. A termination theorem would say nothing the definitions do not,
  so there is none. What is bounded is the traffic of \<open>updateSchema\<close>
  (\<open>Command_Invariants.update_schema_request_bound\<close>). The witnesses are
  evaluated by \<open>code_simp\<close>.

  \<^bold>\<open>Not modelled.\<close>
  \<^item> \<open>glob.sync\<close>, \<open>readFileSync\<close> and \<open>JSON.parse\<close>: libraries the
    program only calls, parameters of \<open>run_cli\<close>; the commands take the
    composed reader \<open>read_json\<close> as their parameter \<open>fs\<close>.
  \<^item> The registry: a parameter server, so every theorem holds for all
    server behaviours.
  \<^item> The parser of \<open>.env\<close> files (its result is a parameter of
    \<open>dotenv_config\<close>) and axios's encoder of query values (a parameter
    \<open>enc\<close>, since it differs between versions); the HTTP transport itself is
    the parameter server.
  \<^item> commander's messages, help output and exit codes are its own;
    \<open>cli_dispatch\<close> only says which action runs, and assumes commander's
    default, before version 13, of ignoring excess operands (the repository
    pins no version).
  \<^item> Concurrency: the program awaits every call in turn, so there is none to
    model.
  \<^item> A call that never answers: the server always answers, so the model does
    not show that a hung call hangs the whole batch (spec section 5), which
    the program allows since it sets no timeout.
  \<^item> Limits of the value model: keys inherited from \<open>Object.prototype\<close> in
    the index, the bracket syntax of lodash paths, and fractional numbers.
\<close>

end
